theory Spec2Isabelle
  imports Complex_Main "HOL-Library.Sublist"
begin

section \<open>JavaScript strings\<close>

text \<open>
  A JavaScript string is modelled as a \<^typ>\<open>string\<close>: a list of code units, each below
  256 (ASCII and Latin-1). On such strings \<open>length\<close> is the source's \<open>.length\<close>.
  Code units above 255 (smart quotes, the byte order mark, other Unicode white space)
  are outside the model.
\<close>

definition is_space :: "char \<Rightarrow> bool" where
  \<comment> \<open>the white space of \<open>String.prototype.trim\<close> and of the regular expression \<open>\s\<close>:
      TAB, LF, VT, FF, CR, SP and the no-break space\<close>
  "is_space c = (of_char c \<in> {9, 10, 11, 12, 13, 32, 160 :: nat})"

definition trim :: "string \<Rightarrow> string" where
  "trim s = rev (dropWhile is_space (rev (dropWhile is_space s)))"

definition lower_char :: "char \<Rightarrow> char" where
  \<comment> \<open>\<open>toLowerCase\<close> on one code unit: A-Z, and the Latin-1 capitals except the
      multiplication sign\<close>
  "lower_char c =
     (let n = (of_char c :: nat)
      in if (65 \<le> n \<and> n \<le> 90) \<or> (192 \<le> n \<and> n \<le> 222 \<and> n \<noteq> 215)
         then char_of (n + 32) else c)"

definition toLowerCase :: "string \<Rightarrow> string" where
  "toLowerCase s = map lower_char s"

definition startsWith :: "string \<Rightarrow> string \<Rightarrow> bool" where
  \<comment> \<open>\<open>s.startsWith(p)\<close>\<close>
  "startsWith s p = prefix p s"

definition endsWith :: "string \<Rightarrow> string \<Rightarrow> bool" where
  "endsWith s p = suffix p s"

definition includes_str :: "string \<Rightarrow> string \<Rightarrow> bool" where
  \<comment> \<open>\<open>s.includes(p)\<close>: \<open>p\<close> occurs in \<open>s\<close> as a contiguous run\<close>
  "includes_str s p = list_ex (\<lambda>t. prefix p t) (suffixes s)"

fun split_on :: "char \<Rightarrow> string \<Rightarrow> string list" where
  \<comment> \<open>\<open>s.split(c)\<close> for a one-character separator: never empty\<close>
  "split_on c [] = [[]]"
| "split_on c (x # xs) =
     (if x = c then [] # split_on c xs
      else (case split_on c xs of [] \<Rightarrow> [[x]] | p # ps \<Rightarrow> (x # p) # ps))"

fun split_lines :: "string \<Rightarrow> string list" where
  \<comment> \<open>\<open>s.split(/\r?\n/)\<close>: a line ends at LF or at CR LF; a lone CR stays in its line\<close>
  "split_lines [] = [[]]"
| "split_lines [x] = (if x = CHR 0x0A then [[], []] else [[x]])"
| "split_lines (x # y # ys) =
     (if x = CHR 0x0A then [] # split_lines (y # ys)
      else if x = CHR 0x0D \<and> y = CHR 0x0A then [] # split_lines ys
      else (case split_lines (y # ys) of [] \<Rightarrow> [[x]] | p # ps \<Rightarrow> (x # p) # ps))"


section \<open>CSV input (\<open>src/io/csv.js\<close>)\<close>

text \<open>
  \<open>splitCsvLine\<close> collects the matches of
  \<^verbatim>\<open>/("([^"]|"")*"|[^,]+)|(?<=,)(?=,)|^,(?=,)|,(?=$)/g\<close>
  from left to right. At one position the alternatives are tried in order: a quoted
  cell, a run of non-commas, the empty cell between two commas, a comma at the start
  that is followed by a comma, a comma at the end. Where none matches the scan moves
  one character on.
\<close>

fun scan_quoted :: "string \<Rightarrow> nat option" where
  \<comment> \<open>the text after an opening quote: how many characters \<^verbatim>\<open>([^"]|"")*"\<close> takes.
      The star is greedy; when the text ends with no closing quote the regular
      expression backs up to the last doubled quote it passed and closes there.\<close>
  "scan_quoted [] = None"
| "scan_quoted [c] = (if c = CHR 0x22 then Some 1 else None)"
| "scan_quoted (c # d # ds) =
     (if c \<noteq> CHR 0x22 then map_option Suc (scan_quoted (d # ds))
      else if d = CHR 0x22
        then (case scan_quoted ds of Some n \<Rightarrow> Some (n + 2) | None \<Rightarrow> Some 1)
        else Some 1)"

definition match_at :: "bool \<Rightarrow> bool \<Rightarrow> string \<Rightarrow> nat option" where
  \<comment> \<open>\<open>match_at start after_comma rest\<close>: the length of the match at this position
      (\<open>start\<close>: the position is 0; \<open>after_comma\<close>: the character before is a comma)\<close>
  "match_at start after_comma rest =
     (case rest of
        [] \<Rightarrow> None
      | c # cs \<Rightarrow>
          if c \<noteq> CHR '','' then
            (case (if c = CHR 0x22 then scan_quoted cs else None) of
               Some n \<Rightarrow> Some (Suc n)
             | None \<Rightarrow> Some (length (takeWhile (\<lambda>x. x \<noteq> CHR '','') rest)))
          else if after_comma then Some 0
          else if start \<and> cs \<noteq> [] \<and> hd cs = CHR '','' then Some 1
          else if cs = [] then Some 1
          else None)"

function csv_matches :: "bool \<Rightarrow> bool \<Rightarrow> string \<Rightarrow> string list" where
  "csv_matches start after_comma rest =
     (if rest = [] then []
      else (case match_at start after_comma rest of
              None \<Rightarrow> csv_matches False (hd rest = CHR '','') (tl rest)
            | Some n \<Rightarrow>
                take n rest #
                csv_matches False (rest ! (max n 1 - 1) = CHR '','') (drop (max n 1) rest)))"
  by pat_completeness auto
termination
  by (relation "measure (\<lambda>(s, a, r). length r)") (auto simp: neq_Nil_conv)

declare csv_matches.simps [simp del]

fun replace_dquotes :: "string \<Rightarrow> string" where
  \<comment> \<open>\<^verbatim>\<open>.replace(/""/g, '"')\<close>\<close>
  "replace_dquotes (c # d # ds) =
     (if c = CHR 0x22 \<and> d = CHR 0x22 then CHR 0x22 # replace_dquotes ds
      else c # replace_dquotes (d # ds))"
| "replace_dquotes s = s"

definition unquote_cell :: "string \<Rightarrow> string" where
  "unquote_cell m =
     (let t = trim m
      in if startsWith t [CHR 0x22] \<and> endsWith t [CHR 0x22]
         then replace_dquotes (butlast (tl t)) else t)"

definition splitCsvLine :: "string \<Rightarrow> string list" where
  "splitCsvLine line = map unquote_cell (csv_matches True False line)"

record expected_row =
  expectedUrl :: string
  expectedTitle :: string
  expectedDesc :: string

definition row_of_cells :: "string list \<Rightarrow> expected_row option" where
  \<comment> \<open>the body of the loop of \<open>parseCsv\<close>: the row a line's cells give, if any\<close>
  "row_of_cells cells =
     (if length cells \<ge> 3 then
        Some \<lparr>expectedUrl = trim (cells ! 0), expectedTitle = trim (cells ! 1),
              expectedDesc = trim (cells ! 2)\<rparr>
      else if length cells \<ge> 2 then
        Some \<lparr>expectedUrl = [], expectedTitle = trim (cells ! 0),
              expectedDesc = trim (cells ! 1)\<rparr>
      else None)"

definition header_like :: "string \<Rightarrow> bool" where
  \<comment> \<open>\<^verbatim>\<open>/url|title|description/i.test(line)\<close>\<close>
  "header_like line =
     (let l = map (\<lambda>c. if of_char c < (128 :: nat) then lower_char c else c) line
      in includes_str l ''url'' \<or> includes_str l ''title'' \<or> includes_str l ''description'')"

definition csv_lines :: "string \<Rightarrow> string list" where
  \<comment> \<open>\<^verbatim>\<open>raw.split(/\r?\n/).filter(l => l.trim().length)\<close>\<close>
  "csv_lines raw = filter (\<lambda>l. trim l \<noteq> []) (split_lines raw)"

definition csv_start :: "string \<Rightarrow> string list \<Rightarrow> nat" where
  "csv_start hasHeader lines =
     (if hasHeader = ''true'' \<or> (hasHeader = ''auto'' \<and> header_like (hd lines))
      then 1 else 0)"

definition parseCsv :: "string \<Rightarrow> string \<Rightarrow> expected_row list" where
  \<comment> \<open>\<open>parseCsv(file, hasHeader)\<close> on the text \<open>raw\<close> read from \<open>file\<close>\<close>
  "parseCsv raw hasHeader =
     (let lines = csv_lines raw
      in if lines = [] then []
         else List.map_filter (\<lambda>l. row_of_cells (splitCsvLine l))
                (drop (csv_start hasHeader lines) lines))"


section \<open>Text normalisation and title matching (\<open>src/match/normalize.js\<close>, \<open>src/match/matcher.js\<close>)\<close>

function collapse_ws :: "string \<Rightarrow> string" where
  \<comment> \<open>\<^verbatim>\<open>.replace(/\s+/g, ' ')\<close>: each maximal run of white space becomes one space\<close>
  "collapse_ws [] = []"
| "collapse_ws (c # cs) =
     (if is_space c then CHR '' '' # collapse_ws (dropWhile is_space cs)
      else c # collapse_ws cs)"
  by pat_completeness auto
termination
  by (relation "measure length") (auto simp: length_dropWhile_le less_Suc_eq_le)

definition normalizeText :: "string \<Rightarrow> string" where
  \<comment> \<open>lower case, smart quotes to the apostrophe (no smart quote is a code unit below
      256, and the apostrophe maps to itself), runs of white space to one space, trim\<close>
  "normalizeText s = trim (collapse_ws (toLowerCase s))"

definition is_token_char :: "char \<Rightarrow> bool" where
  \<comment> \<open>the class \<^verbatim>\<open>[a-z0-9]\<close>\<close>
  "is_token_char c =
     (let n = (of_char c :: nat) in (97 \<le> n \<and> n \<le> 122) \<or> (48 \<le> n \<and> n \<le> 57))"

fun split_tokens :: "string \<Rightarrow> string list" where
  \<comment> \<open>\<^verbatim>\<open>.split(/[^a-z0-9]+/)\<close>: the pieces between maximal runs of other characters\<close>
  "split_tokens [] = [[]]"
| "split_tokens [x] = (if is_token_char x then [[x]] else [[], []])"
| "split_tokens (x # y # ys) =
     (if is_token_char x then
        (case split_tokens (y # ys) of [] \<Rightarrow> [[x]] | p # ps \<Rightarrow> (x # p) # ps)
      else if is_token_char y then [] # split_tokens (y # ys)
      else split_tokens (y # ys))"

definition tokens :: "string \<Rightarrow> string list" where
  \<comment> \<open>the \<open>Set\<close> of tokens, as a list of its members without repetition\<close>
  "tokens s = remdups (filter (\<lambda>t. t \<noteq> []) (split_tokens (normalizeText s)))"

definition jaccard :: "string \<Rightarrow> string \<Rightarrow> real" where
  "jaccard a b =
     (let A = tokens a; B = tokens b;
          inter = length (filter (\<lambda>t. t \<in> set B) A);
          uni = length A + length B - inter
      in if uni \<noteq> 0 then real inter / real uni else 0)"

record page =
  url :: string
  titleN :: string

datatype match_type = MNone | Exact | Prefix | Fuzzy

record match_result =
  mtype :: match_type
  items :: "page list"
  score :: "real option"

record match_opts =
  prefixWords :: "int option"
  fuzzyThreshold :: "real option"

definition slice0 :: "'a list \<Rightarrow> int \<Rightarrow> 'a list" where
  \<comment> \<open>\<open>xs.slice(0, k)\<close>: a negative \<open>k\<close> counts from the end\<close>
  "slice0 xs k = (if k < 0 then take (nat (int (length xs) + k)) xs else take (nat k) xs)"

fun join_with :: "string \<Rightarrow> string list \<Rightarrow> string" where
  \<comment> \<open>\<open>xs.join(sep)\<close>\<close>
  "join_with sep [] = []"
| "join_with sep [x] = x"
| "join_with sep (x # y # ys) = x @ sep @ join_with sep (y # ys)"

definition title_prefix :: "int \<Rightarrow> string \<Rightarrow> string" where
  \<comment> \<open>\<^verbatim>\<open>expectedTitleN.split(' ').slice(0, prefixWords).join(' ')\<close>\<close>
  "title_prefix k e = join_with '' '' (slice0 (split_on CHR '' '' e) k)"

definition scored :: "page list \<Rightarrow> string \<Rightarrow> real \<Rightarrow> (page \<times> real) list" where
  \<comment> \<open>the list \<open>scored\<close> of the fuzzy tier: the pages of similarity at least \<open>T\<close>,
      sorted by descending similarity (the sort is stable)\<close>
  "scored pages expectedTitleN T =
     sort_key (\<lambda>x. - snd x)
       (filter (\<lambda>x. snd x \<ge> T)
          (map (\<lambda>p. (p, jaccard (titleN p) expectedTitleN)) pages))"

definition findByPrefixThenSimilarity ::
    "page list \<Rightarrow> string \<Rightarrow> match_opts \<Rightarrow> match_result" where
  "findByPrefixThenSimilarity pages expectedTitleN opts =
     (let k = (case prefixWords opts of None \<Rightarrow> 4 | Some k \<Rightarrow> k);
          T = (case fuzzyThreshold opts of None \<Rightarrow> 0.6 | Some t \<Rightarrow> t);
          hits = filter (\<lambda>p. titleN p = expectedTitleN) pages
      in if length hits = 1 then \<lparr>mtype = Exact, items = hits, score = None\<rparr>
         else if length hits > 1 then \<lparr>mtype = Exact, items = hits, score = None\<rparr>
         else
           let pre = title_prefix k expectedTitleN;
               hits = filter (\<lambda>p. startsWith (titleN p) pre) pages
           in if length hits = 1 then \<lparr>mtype = Prefix, items = hits, score = None\<rparr>
              else if length hits > 1 then \<lparr>mtype = Prefix, items = hits, score = None\<rparr>
              else
                let sc = scored pages expectedTitleN T
                in if length sc = 0 then \<lparr>mtype = MNone, items = [], score = None\<rparr>
                   else
                     let top = map (\<lambda>x. \<lparr>url = url (fst x), titleN = titleN (fst x)\<rparr>)
                                 (filter (\<lambda>x. snd x = snd (hd sc)) sc)
                     in \<lparr>mtype = Fuzzy, items = top, score = Some (snd (hd sc))\<rparr>)"

datatype row_class = NotFound | Ambiguous | Matched page | NoPage
  \<comment> \<open>\<open>NoPage\<close>: the lookup of the hit by its URL gives \<open>undefined\<close> and the access to
      its title throws\<close>

definition pageByUrl :: "page list \<Rightarrow> string \<Rightarrow> page option" where
  \<comment> \<open>\<^verbatim>\<open>new Map(pages.map(p => [p.url, p])).get(u)\<close>: of the pages with one URL the last\<close>
  "pageByUrl pages u = (case filter (\<lambda>p. url p = u) pages of [] \<Rightarrow> None | ps \<Rightarrow> Some (last ps))"

definition classify_title_row :: "page list \<Rightarrow> string \<Rightarrow> match_opts \<Rightarrow> row_class" where
  \<comment> \<open>the title-based branch of \<open>writeReports\<close> (\<open>src/io/reports.js\<close>), up to the
      choice of the output table\<close>
  "classify_title_row pages expectedTitleN opts =
     (let m = findByPrefixThenSimilarity pages expectedTitleN opts
      in if mtype m = MNone then NotFound
         else if length (items m) > 1 then Ambiguous
         else (case pageByUrl pages (url (hd (items m))) of
                 None \<Rightarrow> NoPage
               | Some p \<Rightarrow> Matched p))"

definition first_tokens_equal :: "nat \<Rightarrow> string \<Rightarrow> string \<Rightarrow> bool" where
  \<comment> \<open>the prefix tier in the specification's words: the first \<open>K\<close> tokens of the
      page's normalised title equal the first \<open>K\<close> tokens of the expected title\<close>
  "first_tokens_equal K t e = (take K (split_on CHR '' '' t) = take K (split_on CHR '' '' e))"

section \<open>Input shape and output gating of the control panel (\<open>src/utils/telemetry.js\<close>)\<close>

text \<open>
  Shares and average lengths are quotients of small natural numbers (at most 50 rows are
  sampled), compared with the constants \<open>0.6\<close>, \<open>0.3\<close> and \<open>120\<close>. On such operands
  the source's double-precision comparisons agree with the exact ones, so the quotients
  are modelled as \<^typ>\<open>real\<close>.
\<close>

definition ascii_lower :: "char \<Rightarrow> char" where
  "ascii_lower c =
     (let n = (of_char c :: nat) in if 65 \<le> n \<and> n \<le> 90 then char_of (n + 32) else c)"

definition ci_prefix :: "string \<Rightarrow> string \<Rightarrow> bool" where
  \<comment> \<open>\<open>s\<close> starts with the lower-case ASCII text \<open>p\<close>, letter case ignored\<close>
  "ci_prefix p s = (map ascii_lower (take (length p) s) = p)"

definition has_scheme_slashes :: "string \<Rightarrow> bool" where
  \<comment> \<open>\<^verbatim>\<open>/^(https?:)?\/\//i.test(t)\<close>\<close>
  "has_scheme_slashes t = (startsWith t ''//'' \<or> ci_prefix ''http://'' t \<or> ci_prefix ''https://'' t)"

definition cell :: "string list \<Rightarrow> nat \<Rightarrow> string" where
  \<comment> \<open>\<open>r[i] || ''\<close>: a missing cell reads as the empty string\<close>
  "cell r i = (if i < length r then r ! i else [])"

definition isUrl :: "string \<Rightarrow> bool" where
  "isUrl s = (s \<noteq> [] \<and> (let t = trim s in has_scheme_slashes t \<or> startsWith t ''/''))"

record 'r shape =
  exists :: bool
  cols :: nat
  firstColUrlShare :: real
  firstRowIsUrl :: bool
  inferredRoles :: 'r

definition no_shape :: "string list shape" where
  "no_shape = \<lparr>exists = False, cols = 0, firstColUrlShare = 0, firstRowIsUrl = False,
               inferredRoles = []\<rparr>"

definition sample_lines :: "string \<Rightarrow> string list" where
  \<comment> \<open>\<^verbatim>\<open>raw.split(/\r?\n/).filter(l => l.trim()).slice(0, 50)\<close>\<close>
  "sample_lines raw = take 50 (filter (\<lambda>l. trim l \<noteq> []) (split_lines raw))"

definition pick_delim :: "string \<Rightarrow> char \<times> nat" where
  \<comment> \<open>the delimiter among comma, tab and semicolon that splits the first line into the
      most pieces (the first such), with that number of pieces\<close>
  "pick_delim first =
     foldl (\<lambda>(bestDelim, maxCols) d.
              let c = length (split_on d first)
              in if c > maxCols then (d, c) else (bestDelim, maxCols))
       (CHR '','', 0) [CHR '','', CHR 0x09, CHR '';'']"

definition url_share :: "nat \<Rightarrow> string list list \<Rightarrow> real" where
  \<comment> \<open>\<^verbatim>\<open>rows.filter(r => isUrl(r[i] || '')).length / rows.length\<close>\<close>
  "url_share i rows = real (length (filter (\<lambda>r. isUrl (cell r i)) rows)) / real (length rows)"

definition avg_cell_len :: "nat \<Rightarrow> string list list \<Rightarrow> real" where
  \<comment> \<open>\<^verbatim>\<open>rows.reduce((s, r) => s + String(r[i] || '').length, 0) / rows.length\<close>\<close>
  "avg_cell_len i rows = real (sum_list (map (\<lambda>r. length (cell r i)) rows)) / real (length rows)"

definition infer_roles :: "nat \<Rightarrow> string list list \<Rightarrow> string list" where
  "infer_roles ncols rows =
     (if ncols = 3 then [''url'', ''title'', ''description'']
      else if ncols = 2 then
        (let col1Url = url_share 0 rows; col2Url = url_share 1 rows
         in if col1Url > 0.6 \<and> col2Url < 0.3 then
              [''url'', if avg_cell_len 1 rows < 120 then ''title'' else ''description'']
            else if col1Url < 0.3 \<and> col2Url < 0.3 then [''title'', ''description'']
            else [])
      else if ncols = 1 then
        (if url_share 0 rows \<ge> 0.6 then [''url'']
         else [if avg_cell_len 0 rows < 120 then ''title'' else ''description''])
      else [])"

definition sample_rows :: "string \<Rightarrow> string list list" where
  \<comment> \<open>the sampled lines, split at the chosen delimiter\<close>
  "sample_rows raw = map (split_on (fst (pick_delim (hd (sample_lines raw))))) (sample_lines raw)"

definition sniffCsvShape :: "string option \<Rightarrow> string list shape" where
  \<comment> \<open>\<open>sniffCsvShape(filePath)\<close>; the argument is the text of the file, \<open>None\<close> when
      the path is empty, the file is missing or it cannot be read\<close>
  "sniffCsvShape file =
     (case file of
        None \<Rightarrow> no_shape
      | Some raw \<Rightarrow>
          if sample_lines raw = [] then no_shape
          else
            let rows = sample_rows raw;
                ncols = snd (pick_delim (hd (sample_lines raw)))
            in \<lparr>exists = True, cols = ncols, firstColUrlShare = url_share 0 rows,
                firstRowIsUrl = isUrl (cell (hd rows) 0),
                inferredRoles = infer_roles ncols rows\<rparr>)"

record gate_error =
  key :: string
  reason :: string

definition validateOutputs :: "string list \<Rightarrow> string list shape option \<Rightarrow> gate_error list" where
  "validateOutputs selected shape =
     (let hasInput = (case shape of None \<Rightarrow> False | Some s \<Rightarrow> exists s);
          roles = (case shape of None \<Rightarrow> [] | Some s \<Rightarrow> inferredRoles s);
          share_ok = (case shape of None \<Rightarrow> False | Some s \<Rightarrow> firstColUrlShare s \<ge> 0.6)
      in (if ''existence_csv'' \<in> set selected then
            (if \<not> hasInput then
               [\<lparr>key = ''existence_csv'', reason = ''No input file found for existence check.''\<rparr>]
             else if ''url'' \<notin> set roles \<and> \<not> share_ok then
               [\<lparr>key = ''existence_csv'', reason = ''First column must look like URLs (>=60%).''\<rparr>]
             else [])
          else [])
       @ (if ''comparison_csv'' \<in> set selected then
            (if \<not> hasInput then
               [\<lparr>key = ''comparison_csv'', reason = ''Comparison requires an input file.''\<rparr>]
             else if ''title'' \<notin> set roles \<and> ''description'' \<notin> set roles then
               [\<lparr>key = ''comparison_csv'',
                 reason = ''Need a title and/or description column detected.''\<rparr>]
             else [])
          else [])
       @ (if \<not> hasInput then
            (if ''existence_csv'' \<in> set selected then
               [\<lparr>key = ''existence_csv'', reason = ''Forbidden when no input file is provided.''\<rparr>]
             else [])
            @ (if ''comparison_csv'' \<in> set selected then
                 [\<lparr>key = ''comparison_csv'',
                   reason = ''Forbidden when no input file is provided.''\<rparr>]
               else [])
          else []))"

record config_reply =
  valid :: bool
  reply_errors :: "gate_error list"

definition post_config :: "gate_error list \<Rightarrow> string list \<Rightarrow> string option \<Rightarrow> config_reply" where
  \<comment> \<open>the validation of \<open>POST /config\<close>: \<open>earlier\<close> are the errors already found for the
      base URL and the output folder, \<open>file\<close> the text of the input file\<close>
  "post_config earlier outputs file =
     (let errors = earlier @ validateOutputs outputs (Some (sniffCsvShape file))
      in \<lparr>valid = (length errors = 0), reply_errors = errors\<rparr>)"

section \<open>The stand-alone classifier and gate (\<open>src/lib/shape-sniff.js\<close>, \<open>src/lib/output-gating.js\<close>)\<close>

definition isUrlish :: "string \<Rightarrow> bool" where
  \<comment> \<open>\<^verbatim>\<open>/^(?:https?:)?\/\/[^\s]+|^\/(?!\/)/i\<close> on the trimmed cell: an optional scheme,
      two slashes and a character that is not white space; or one slash not followed by
      a second\<close>
  "isUrlish s =
     (let t = trim s;
          after = (\<lambda>n. n < length t \<and> \<not> is_space (t ! n))
      in (startsWith t ''//'' \<and> after 2) \<or> (ci_prefix ''http://'' t \<and> after 7)
         \<or> (ci_prefix ''https://'' t \<and> after 8)
         \<or> (startsWith t ''/'' \<and> \<not> startsWith t ''//''))"

definition variance_of :: "nat list \<Rightarrow> real" where
  \<comment> \<open>the mean squared deviation of the counts from their average\<close>
  "variance_of counts =
     (let n = real (length counts);
          avg = real (sum_list counts) / n
      in sum_list (map (\<lambda>b. (real b - avg)\<^sup>2) counts) / n)"

definition detectDelimiter :: "string \<Rightarrow> char" where
  \<comment> \<open>the candidate whose column counts vary most, the earlier one on a tie. The scores
      are exact here and double precision numbers in the source: where two scores are
      equal here the source can find the later one larger and choose it. What is shown of
      \<open>sniffCsvShape\<close> of \<open>shape-sniff.js\<close> is therefore shown for every delimiter as well.\<close>
  "detectDelimiter sampleText =
     (let lines = filter (\<lambda>l. l \<noteq> []) (map trim (take 50 (split_lines sampleText)))
      in if length lines = 0 then CHR '',''
         else fst (foldl (\<lambda>(bd, best) d.
                            let score = variance_of (map (\<lambda>l. length (split_on d l)) lines)
                            in if score > best then (d, score) else (bd, best))
                     (CHR '','', - 1) [CHR '','', CHR 0x09, CHR '';'']))"

definition splitRow :: "string \<Rightarrow> char \<Rightarrow> string list" where
  "splitRow row d = map trim (split_on d row)"

definition avgLen :: "string list \<Rightarrow> real" where
  "avgLen arr = (if length arr \<noteq> 0 then real (sum_list (map length arr)) / real (length arr) else 0)"

record 'r lib_shape = "'r shape" +
  delim :: char

definition all_rows :: "char \<Rightarrow> string \<Rightarrow> string list list" where
  \<comment> \<open>\<^verbatim>\<open>raw.split(/\r?\n/).map(l => l.trim()).filter(Boolean).map(l => splitRow(l, delim))\<close>\<close>
  "all_rows d raw = map (\<lambda>l. splitRow l d) (filter (\<lambda>l. l \<noteq> []) (map trim (split_lines raw)))"

definition padded_rows :: "char \<Rightarrow> string \<Rightarrow> string list list" where
  \<comment> \<open>the first 50 rows that have a non-blank cell, each filled up with empty cells to
      the greatest row length\<close>
  "padded_rows d raw =
     (let nonEmpty = filter (\<lambda>r. list_ex (\<lambda>c. trim c \<noteq> []) r) (take 50 (all_rows d raw));
          ncols = (if nonEmpty \<noteq> [] then fold max (map length nonEmpty) 0 else 0)
      in map (\<lambda>r. r @ replicate (ncols - length r) []) nonEmpty)"

definition lib_cols :: "char \<Rightarrow> string \<Rightarrow> nat" where
  "lib_cols d raw =
     (let nonEmpty = filter (\<lambda>r. list_ex (\<lambda>c. trim c \<noteq> []) r) (take 50 (all_rows d raw))
      in if nonEmpty \<noteq> [] then fold max (map length nonEmpty) 0 else 0)"

definition lib_share :: "string list list \<Rightarrow> real" where
  "lib_share padded =
     (if length padded \<noteq> 0
      then real (length (filter (\<lambda>r. isUrlish (cell r 0)) padded)) / real (length padded)
      else 0)"

definition lib_roles :: "nat \<Rightarrow> string list list \<Rightarrow> string list list" where
  \<comment> \<open>the block \<open>Inference by column count\<close>\<close>
  "lib_roles ncols padded =
     (if ncols \<ge> 3 then [[''url'', ''title'', ''description'']]
      else if ncols = 2 then
        (let col1Url = (lib_share padded \<ge> 0.6);
             col2Avg = avgLen (map (\<lambda>r. cell r 1) padded)
         in if col1Url then
              (if col2Avg < 120 then [[''url'', ''title'']] else [[''url'', ''description'']])
            else [[''title'', ''description'']])
      else if ncols = 1 then
        (if lib_share padded \<ge> 0.6 then [[''url'']]
         else if avgLen (map (\<lambda>r. cell r 0) padded) < 120 then [[''title'']]
         else [[''description'']])
      else [])"

definition sniff_with :: "char \<Rightarrow> string \<Rightarrow> string list list lib_shape" where
  \<comment> \<open>the body of \<open>sniffCsvShape(text)\<close> after the delimiter is chosen\<close>
  "sniff_with d raw =
     (let padded = padded_rows d raw; ncols = lib_cols d raw
      in \<lparr>exists = (length (all_rows d raw) \<noteq> 0), cols = ncols,
          firstColUrlShare = lib_share padded,
          firstRowIsUrl = (if length padded \<noteq> 0 then isUrlish (cell (hd padded) 0) else False),
          inferredRoles = lib_roles ncols padded, delim = d\<rparr>)"

definition lib_sniffCsvShape :: "string \<Rightarrow> string list list lib_shape" where
  \<comment> \<open>\<open>sniffCsvShape(text)\<close> of \<open>shape-sniff.js\<close>\<close>
  "lib_sniffCsvShape text = sniff_with (detectDelimiter text) text"

record gate_result =
  ok :: bool
  errors :: "string list"

definition ge_sign :: string where
  \<comment> \<open>the character U+2265 of the source's message, written as its UTF-8 bytes\<close>
  "ge_sign = [CHR 0xE2, CHR 0x89, CHR 0xA5]"

definition en_dash :: string where
  \<comment> \<open>the character U+2013, written as its UTF-8 bytes\<close>
  "en_dash = [CHR 0xE2, CHR 0x80, CHR 0x93]"

definition msg_existence_input :: string where
  "msg_existence_input = ''existence_csv requires an input file.''"

definition msg_existence_urlish :: string where
  "msg_existence_urlish =
     ''existence_csv requires first column to be URL-ish in '' @ ge_sign @ ''60% rows.''"

definition msg_comparison_input :: string where
  "msg_comparison_input = ''comparison_csv requires an input file.''"

definition msg_comparison_roles :: string where
  "msg_comparison_roles =
     ''comparison_csv requires title and/or description columns (inferred from 2''
       @ en_dash @ ''3 column inputs).''"

definition lib_validateOutputs ::
    "(string list list, 'z) shape_scheme option \<Rightarrow> string list \<Rightarrow> gate_result"
  where
  \<comment> \<open>\<open>validateOutputs(shape, selections)\<close> of \<open>output-gating.js\<close>; it reads the first
      entry of \<open>inferredRoles\<close>\<close>
  "lib_validateOutputs shape selections =
     (let hasInput = (case shape of None \<Rightarrow> False | Some s \<Rightarrow> exists s);
          urlishEnough = (case shape of None \<Rightarrow> False | Some s \<Rightarrow> firstColUrlShare s \<ge> 0.6);
          roles = (case shape of None \<Rightarrow> []
                   | Some s \<Rightarrow> (case inferredRoles s of [] \<Rightarrow> [] | r # _ \<Rightarrow> r));
          errs =
            (if ''existence_csv'' \<in> set selections then
               (if \<not> hasInput then [msg_existence_input] else [])
               @ (if \<not> urlishEnough then [msg_existence_urlish] else [])
             else [])
            @ (if ''comparison_csv'' \<in> set selections then
                 (if \<not> hasInput then [msg_comparison_input] else [])
                 @ (if \<not> (''title'' \<in> set roles \<or> ''description'' \<in> set roles)
                    then [msg_comparison_roles] else [])
               else [])
      in \<lparr>ok = (length errs = 0), errors = errs\<rparr>)"

section \<open>Run mode of a worker (\<open>src/run.js\<close>)\<close>

datatype csv_row = Arr "string list" | Obj "(string \<times> string) list"
  \<comment> \<open>a parsed row: an array of cells, or an object as the list of its keys and values
      in key order\<close>

definition row_object :: "expected_row \<Rightarrow> csv_row" where
  \<comment> \<open>the object \<open>parseCsv\<close> pushes for a row\<close>
  "row_object r =
     Obj [(''expectedUrl'', expectedUrl r), (''expectedTitle'', expectedTitle r),
          (''expectedDesc'', expectedDesc r)]"

definition firstCell :: "csv_row \<Rightarrow> string" where
  "firstCell row =
     (case row of
        Arr cells \<Rightarrow> cell cells 0
      | Obj kvs \<Rightarrow> (case kvs of [] \<Rightarrow> [] | kv # _ \<Rightarrow> snd kv))"

definition run_isUrlish :: "string \<Rightarrow> bool" where
  \<comment> \<open>\<open>isUrlish\<close> of \<open>run.js\<close>: no trimming\<close>
  "run_isUrlish s = (has_scheme_slashes s \<or> startsWith s ''/'')"

record input_shape =
  in_mode :: string
  in_cols :: nat
  in_firstColUrlShare :: real
  in_firstRowIsUrl :: bool

definition no_input_shape :: input_shape where
  "no_input_shape =
     \<lparr>in_mode = ''no-input'', in_cols = 0, in_firstColUrlShare = 0, in_firstRowIsUrl = False\<rparr>"

definition sniffInputShape :: "csv_row list \<Rightarrow> input_shape" where
  "sniffInputShape rs =
     (if length rs = 0 then no_input_shape
      else
        let firstCol = map firstCell rs
        in \<lparr>in_mode = ''has-input'',
            in_cols = (case hd rs of Arr cells \<Rightarrow> length cells | Obj kvs \<Rightarrow> length kvs),
            in_firstColUrlShare =
              real (length (filter run_isUrlish firstCol)) / real (max 1 (length firstCol)),
            in_firstRowIsUrl = run_isUrlish (hd firstCol)\<rparr>)"

record mode_input =
  forceFrontier :: bool    \<comment> \<open>the worker was started with \<open>--mode frontier\<close>\<close>
  usingUrlsFile :: bool    \<comment> \<open>the orchestrator passed a file of URLs that exists\<close>
  inputExists :: bool      \<comment> \<open>\<open>cfg.input\<close> names a file that exists\<close>
  explicit :: bool         \<comment> \<open>the verdict of \<open>sniffInputForExplicitUrls\<close>\<close>
  rows :: "csv_row list"   \<comment> \<open>the rows read from the input, \<open>[]\<close> when there is none\<close>

definition sitemapMode :: "mode_input \<Rightarrow> bool" where
  \<comment> \<open>the value of \<open>sitemapMode\<close> after the block \<open>Input mode resolution\<close>\<close>
  "sitemapMode c =
     (if usingUrlsFile c then False
      else
        let taken = (\<not> forceFrontier c \<and> explicit c);
            sm0 = taken;
            sh = (if taken then no_input_shape else sniffInputShape (rows c))
        in if \<not> inputExists c \<or> in_mode sh = ''no-input'' then sm0
           else if \<not> forceFrontier c \<and> in_cols sh \<ge> 3 then True
           else if in_cols sh = 1 then
             (if \<not> forceFrontier c \<and> in_firstColUrlShare sh \<ge> 0.6 then True else sm0)
           else if in_cols sh = 2 then
             (if \<not> forceFrontier c \<and> (in_firstRowIsUrl sh \<or> in_firstColUrlShare sh \<ge> 0.6)
              then True else sm0)
           else sm0)"

definition run_mode :: "mode_input \<Rightarrow> string" where
  \<comment> \<open>the argument of \<open>telemetry.setMode\<close>\<close>
  "run_mode c =
     (if \<not> inputExists c then ''no-input''
      else if sitemapMode c then ''explicit-urls'' else ''discovery'')"

definition row_keys :: "csv_row \<Rightarrow> string list" where
  \<comment> \<open>\<open>Object.keys(row)\<close> of an object row, \<open>[]\<close> for an array\<close>
  "row_keys row = (case row of Arr _ \<Rightarrow> [] | Obj kvs \<Rightarrow> map fst kvs)"

definition first_col_cell :: "string list \<Rightarrow> csv_row \<Rightarrow> string" where
  \<comment> \<open>the first-column cell as \<open>sniffInputForExplicitUrls\<close> reads it: cell 0 of an array,
      the value under the first row's first key of an object, trimmed\<close>
  "first_col_cell headers row =
     trim (case row of
             Arr cells \<Rightarrow> cell cells 0
           | Obj kvs \<Rightarrow>
               (case headers of
                  [] \<Rightarrow> []
                | h # _ \<Rightarrow> (case map_of kvs h of None \<Rightarrow> [] | Some v \<Rightarrow> v)))"

definition explicit_sniff :: "(string \<Rightarrow> bool) \<Rightarrow> csv_row list \<Rightarrow> bool" where
  \<comment> \<open>the field \<open>explicit\<close> of \<open>sniffInputForExplicitUrls\<close> on the parsed rows.
      \<open>in_scope h\<close> says that the absolute URL \<open>h\<close> parses, has the base origin and
      lies under the path prefix, so that the normalising step keeps it.\<close>
  "explicit_sniff in_scope rs =
     (if length rs = 0 then False
      else
        let headers = row_keys (hd rs);
            hasUrlHeader = list_ex (\<lambda>k. map ascii_lower k = ''url'') headers;
            firstCol = filter (\<lambda>s. s \<noteq> []) (map (first_col_cell headers) rs);
            abs_urls = filter (\<lambda>s. ci_prefix ''http://'' s \<or> ci_prefix ''https://'' s) firstCol;
            ratio = (if length firstCol \<noteq> 0
                     then real (length abs_urls) / real (length firstCol) else 0);
            looksExplicit = (hasUrlHeader \<or> ratio \<ge> 0.9)
        in if \<not> looksExplicit then False
           else list_ex in_scope abs_urls)"

definition parsed_rows :: "string option \<Rightarrow> csv_row list" where
  \<comment> \<open>the rows \<open>run\<close> works on: \<open>parseCsv(cfg.input, 'auto')\<close> when the input file
      exists (\<open>Some\<close> its text), else \<open>[]\<close>\<close>
  "parsed_rows inp = (case inp of None \<Rightarrow> [] | Some raw \<Rightarrow> map row_object (parseCsv raw ''auto''))"

definition mode_of_input :: "bool \<Rightarrow> bool \<Rightarrow> (string \<Rightarrow> bool) \<Rightarrow> string option \<Rightarrow> mode_input" where
  \<comment> \<open>what the mode resolution of \<open>run\<close> reads, for a worker started with or without
      \<open>--mode frontier\<close>, with or without a file of URLs, on the input file \<open>inp\<close>\<close>
  "mode_of_input forced urlsFile in_scope inp =
     \<lparr>forceFrontier = forced, usingUrlsFile = urlsFile, inputExists = (inp \<noteq> None),
      explicit = explicit_sniff in_scope (parsed_rows inp), rows = parsed_rows inp\<rparr>"

definition worker_mode :: "bool \<Rightarrow> bool \<Rightarrow> (string \<Rightarrow> bool) \<Rightarrow> string option \<Rightarrow> string" where
  \<comment> \<open>the mode \<open>run\<close> reports for the input file \<open>inp\<close>\<close>
  "worker_mode forced urlsFile in_scope inp = run_mode (mode_of_input forced urlsFile in_scope inp)"

section \<open>The URL claim ledger (\<open>tryClaim\<close> in \<open>src/discover/frontier.js\<close>)\<close>

definition is_digit :: "char \<Rightarrow> bool" where
  "is_digit c = (let n = (of_char c :: nat) in 48 \<le> n \<and> n \<le> 57)"

definition parseInt10 :: "string \<Rightarrow> int option" where
  \<comment> \<open>\<open>parseInt(s, 10)\<close>: leading white space, an optional sign, then the longest run
      of digits; \<open>None\<close> is \<open>NaN\<close>. The value is exact (the source rounds beyond
      \<open>2^53\<close>).\<close>
  "parseInt10 s =
     (let t = dropWhile is_space s;
          neg = (t \<noteq> [] \<and> hd t = CHR ''-'');
          r = (if t \<noteq> [] \<and> (hd t = CHR ''-'' \<or> hd t = CHR ''+'') then tl t else t);
          ds = takeWhile is_digit r;
          v = foldl (\<lambda>a d. 10 * a + (int (of_char d) - 48)) 0 ds
      in if ds = [] then None else Some (if neg then - v else v))"

definition env_or :: "string option \<Rightarrow> string \<Rightarrow> string" where
  \<comment> \<open>\<open>process.env.X || dflt\<close>: an unset or empty variable gives the default\<close>
  "env_or v dflt = (case v of None \<Rightarrow> dflt | Some s \<Rightarrow> if s = [] then dflt else s)"

datatype errno = EEXIST | EBUSY | EPERM | EACCES | EPROTO | EOTHER

datatype fs_event = Open nat | Sleep "int option"
  \<comment> \<open>\<open>Open i\<close>: the exclusive create of attempt \<open>i\<close>; \<open>Sleep ms\<close>: a call
      \<open>sleepMs(SLEEP_MS)\<close> with the parsed \<open>MC_LOCK_SLEEP\<close>\<close>

record claim_env =
  mkdir_fails :: bool                      \<comment> \<open>\<open>fs.mkdirSync(locksDir)\<close> throws\<close>
  done_exists :: bool                      \<comment> \<open>\<open>fs.existsSync(donePath)\<close>\<close>
  open_at :: "nat \<Rightarrow> errno option"         \<comment> \<open>attempt \<open>i\<close> of \<open>fs.openSync(lockPath, 'wx')\<close>:
                                               \<open>None\<close> when it succeeds, else the error code\<close>
  write_fails :: bool                      \<comment> \<open>writing the owner record throws\<close>
  MC_LOCK_TRIES :: "string option"
  MC_LOCK_SLEEP :: "string option"
  sha1 :: "string \<Rightarrow> string"               \<comment> \<open>the hex digest of the \<open>crypto\<close> library\<close>

datatype loop_end = Opened | Refused | Exhausted
  \<comment> \<open>how the retry loop ends: \<open>break\<close> with a descriptor, \<open>return null\<close> from the
      \<open>catch\<close>, or the attempts used up\<close>

definition transient :: "errno \<Rightarrow> bool" where
  "transient e = (e = EBUSY \<or> e = EPERM \<or> e = EACCES \<or> e = EPROTO)"

function claim_loop ::
    "(nat \<Rightarrow> errno option) \<Rightarrow> int option \<Rightarrow> int option \<Rightarrow> nat \<Rightarrow> loop_end \<times> fs_event list"
  where
  \<comment> \<open>\<^verbatim>\<open>for (let i = 0; i < MAX_TRIES; i++)\<close> from index \<open>i\<close>; with \<open>MAX_TRIES = NaN\<close> the
      test \<open>i < MAX_TRIES\<close> is false\<close>
  "claim_loop opn max_tries sleep_ms i =
     (if (case max_tries of None \<Rightarrow> False | Some m \<Rightarrow> int i < m) then
        (case opn i of
           None \<Rightarrow> (Opened, [Open i])
         | Some e \<Rightarrow>
             if e = EEXIST then (Refused, [Open i])
             else if transient e then
               (let (x, tr) = claim_loop opn max_tries sleep_ms (Suc i)
                in (x, Open i # Sleep sleep_ms # tr))
             else (Refused, [Open i]))
      else (Exhausted, []))"
  by pat_completeness auto
termination
  by (relation "measure (\<lambda>(opn, m, s, i). (case m of None \<Rightarrow> 0 | Some k \<Rightarrow> nat k) - i)")
     (auto split: option.splits)

declare claim_loop.simps [simp del]

definition lock_tries :: "claim_env \<Rightarrow> int option" where
  \<comment> \<open>\<^verbatim>\<open>parseInt(process.env.MC_LOCK_TRIES || '60', 10)\<close>\<close>
  "lock_tries env = parseInt10 (env_or (MC_LOCK_TRIES env) ''60'')"

definition lock_sleep :: "claim_env \<Rightarrow> int option" where
  \<comment> \<open>\<^verbatim>\<open>parseInt(process.env.MC_LOCK_SLEEP || '100', 10)\<close>\<close>
  "lock_sleep env = parseInt10 (env_or (MC_LOCK_SLEEP env) ''100'')"



record claim =
  claim_url :: string
  lockPath :: string
  donePath :: string

datatype thrown = MkdirError | FileError | ReferenceError
  \<comment> \<open>what a call can throw: a failing \<open>mkdirSync\<close>, a failing write or read of a file, a
      reference to a name that has no binding\<close>

definition tryClaim ::
    "claim_env \<Rightarrow> string \<Rightarrow> string \<Rightarrow> thrown + (claim option \<times> fs_event list)" where
  \<comment> \<open>\<open>tryClaim(locksDir, url)\<close>: the handle returned (\<open>None\<close> for \<open>null\<close>) and the
      attempts and sleeps made; \<open>Inl\<close> when the call throws\<close>
  "tryClaim env locksDir u =
     (if mkdir_fails env then Inl MkdirError
      else
        let ident = sha1 env u;
            lockP = locksDir @ ''/'' @ ident @ ''.lock'';
            doneP = locksDir @ ''/'' @ ident @ ''.done''
        in if done_exists env then Inr (None, [])
           else
             let MAX_TRIES = lock_tries env;
                 SLEEP_MS = lock_sleep env;
                 (x, tr) = claim_loop (open_at env) MAX_TRIES SLEEP_MS 0
             in if x = Opened \<and> \<not> write_fails env
                then Inr (Some \<lparr>claim_url = u, lockPath = lockP, donePath = doneP\<rparr>, tr)
                else Inr (None, tr))"

section \<open>Claiming from a bucket (\<open>claimNextBucket\<close> in \<open>src/discover/frontier.js\<close>)\<close>

text \<open>
  A bucket file is a list of bytes and the cursor is a byte offset into it. The text is
  taken to be ASCII, so that a byte is a character and \<open>Buffer.byteLength\<close> is the length.
\<close>

record bucket_env =
  frontier_mkdir_fails :: bool          \<comment> \<open>a \<open>mkdirSync\<close> of the frontier directory throws\<close>
  bucket_text :: "string option"        \<comment> \<open>\<open>bucket.r.ndjson\<close>; \<open>None\<close> when the file does not exist
                                            (it is then created empty)\<close>
  bucket_read_fails :: bool             \<comment> \<open>creating the missing bucket file, or reading the
                                            bucket file, throws\<close>
  offset_text :: "string option"        \<comment> \<open>\<open>bucket.r.offset\<close>; \<open>None\<close> when reading it throws\<close>
  acceptFn :: "(string \<Rightarrow> bool) option"  \<comment> \<open>the predicate of the caller, when one is given\<close>
  ledger :: "nat \<Rightarrow> claim_env"           \<comment> \<open>what \<open>tryClaim\<close> finds when line \<open>i\<close> of the scan is tried\<close>

definition strip_bom :: "string \<Rightarrow> string" where
  "strip_bom buf = (if take 3 buf = [CHR 0xEF, CHR 0xBB, CHR 0xBF] then drop 3 buf else buf)"

fun crlf_to_lf :: "string \<Rightarrow> string" where
  \<comment> \<open>\<^verbatim>\<open>.replace(/\r\n/g, '\n')\<close>\<close>
  "crlf_to_lf (x # y # ys) =
     (if x = CHR 0x0D \<and> y = CHR 0x0A then CHR 0x0A # crlf_to_lf ys
      else x # crlf_to_lf (y # ys))"
| "crlf_to_lf xs = xs"

definition cursor :: "bucket_env \<Rightarrow> int" where
  \<comment> \<open>\<^verbatim>\<open>let pos = 0; try { pos = parseInt(read(offset).trim() || '0', 10) || 0 } catch {}\<close>\<close>
  "cursor env =
     (case offset_text env of
        None \<Rightarrow> 0
      | Some t \<Rightarrow> (case parseInt10 (let s = trim t in if s = [] then ''0'' else s) of
                    None \<Rightarrow> 0
                  | Some v \<Rightarrow> v))"

definition bucket_bytes :: "bucket_env \<Rightarrow> string" where
  \<comment> \<open>\<open>buf\<close>: the bucket file without a leading byte order mark\<close>
  "bucket_bytes env = strip_bom (case bucket_text env of None \<Rightarrow> [] | Some b \<Rightarrow> b)"

definition accepts :: "bucket_env \<Rightarrow> string \<Rightarrow> bool" where
  \<comment> \<open>the negation of the test \<^verbatim>\<open>acceptFn && !acceptFn(url)\<close>\<close>
  "accepts env u = (case acceptFn env of None \<Rightarrow> True | Some f \<Rightarrow> f u)"

fun scan_lines ::
    "bucket_env \<Rightarrow> string \<Rightarrow> int \<Rightarrow> int option \<Rightarrow> nat \<Rightarrow> string list
       \<Rightarrow> thrown + (claim option \<times> int list)" where
  \<comment> \<open>the \<open>for\<close> loop over \<open>lines\<close> from index \<open>i\<close>, and the statements after it. \<open>adv\<close> is
      the binding of \<open>advanced\<close>: \<open>None\<close> when the name has no binding. The result is the
      value returned and the numbers written to the cursor file, in order (a write that
      fails is ignored by the source). The delay \<open>MC_POLITE_DELAY_MS\<close> before a claim is
      returned is left out.\<close>
  "scan_lines env locksDir pos adv i [] = Inr (None, [pos])"
| "scan_lines env locksDir pos adv i (line # rest) =
     (let withNl = (if rest \<noteq> [] then line @ [CHR 0x0A] else line);
          inc = int (length withNl);
          url = trim line
      in case adv of
           None \<Rightarrow> Inl ReferenceError
         | Some a \<Rightarrow>
             let advanced = a + inc
             in if url = [] then scan_lines env locksDir pos (Some advanced) (Suc i) rest
                else if \<not> accepts env url
                then scan_lines env locksDir pos (Some advanced) (Suc i) rest
                else (case tryClaim (ledger env i) locksDir url of
                        Inl e \<Rightarrow> Inl e
                      | Inr (None, tr) \<Rightarrow>
                          scan_lines env locksDir pos (Some advanced) (Suc i) rest
                      | Inr (Some c, tr) \<Rightarrow> Inr (Some c, [pos + advanced])))"

definition claimNextBucket_with ::
    "int option \<Rightarrow> bucket_env \<Rightarrow> string \<Rightarrow> thrown + (claim option \<times> int list)" where
  \<comment> \<open>\<open>claimNextBucket(frontierDir, locksDir, r, parts, acceptFn)\<close>, given the binding of
      \<open>advanced\<close> on entry to the loop\<close>
  "claimNextBucket_with adv env locksDir =
     (if frontier_mkdir_fails env then Inl MkdirError
      else if bucket_read_fails env then Inl FileError
      else
        let pos = cursor env;
            buf = bucket_bytes env;
            n = int (length buf)
        in if pos > n then Inr (None, [n])
           else if pos \<ge> n then Inr (None, [])
           else scan_lines env locksDir pos adv 0
                  (split_on (CHR 0x0A) (crlf_to_lf (drop (nat pos) buf))))"

definition claimNextBucket :: "bucket_env \<Rightarrow> string \<Rightarrow> thrown + (claim option \<times> int list)" where
  \<comment> \<open>the function as it is in the file: \<open>advanced\<close> is declared nowhere, in a module
      in strict mode\<close>
  "claimNextBucket env locksDir = claimNextBucket_with None env locksDir"

definition skipped :: "bucket_env \<Rightarrow> string \<Rightarrow> nat \<Rightarrow> string \<Rightarrow> bool" where
  \<comment> \<open>line \<open>i\<close> of the scan is passed over: it is blank, or refused by the predicate, or
      \<open>tryClaim\<close> returns \<open>null\<close> for it\<close>
  "skipped env locksDir i line =
     (trim line = []
      \<or> \<not> accepts env (trim line)
      \<or> (\<exists>tr. tryClaim (ledger env i) locksDir (trim line) = Inr (None, tr)))"

definition line_bytes :: "string list \<Rightarrow> nat \<Rightarrow> int" where
  \<comment> \<open>the bytes of the lines \<open>0..j\<close> of a split text with their line feeds\<close>
  "line_bytes lines j =
     (\<Sum>k \<leftarrow> [0..<Suc j]. int (length (lines ! k)) + (if Suc k < length lines then 1 else 0))"

definition free_ledger :: "claim_env" where
  \<comment> \<open>a ledger in which nothing is claimed yet\<close>
  "free_ledger = \<lparr>mkdir_fails = False, done_exists = False, open_at = (\<lambda>i. None),
                   write_fails = False, MC_LOCK_TRIES = None, MC_LOCK_SLEEP = None,
                   sha1 = (\<lambda>u. ''da39'')\<rparr>"

definition bucket0 :: "string \<Rightarrow> string option \<Rightarrow> (string \<Rightarrow> bool) option \<Rightarrow> bucket_env" where
  \<comment> \<open>a readable bucket with the given text, cursor file and predicate, over a free ledger\<close>
  "bucket0 txt off acc = \<lparr>frontier_mkdir_fails = False, bucket_text = Some txt,
      bucket_read_fails = False, offset_text = off, acceptFn = acc, ledger = (\<lambda>i. free_ledger)\<rparr>"

section \<open>The work loop of a frontier worker (\<open>crawlSite\<close> in \<open>src/discover/crawler.js\<close>)\<close>












section \<open>Merging the workers' URL lists (\<open>scripts/shard-run.js\<close>)\<close>

definition append_part :: "string \<Rightarrow> string list option \<Rightarrow> string" where
  \<comment> \<open>the exit handler of one worker: each URL of its file \<open>urls-final.partK.json\<close> is
      appended to the master file as one line; \<open>None\<close> is a part file that is missing
      or is not valid JSON, and nothing is appended for it\<close>
  "append_part master part =
     (case part of
        None \<Rightarrow> master
      | Some urls \<Rightarrow> master @ concat (map (\<lambda>u. u @ [CHR 0x0A]) urls))"

definition master_file :: "string list option list \<Rightarrow> string" where
  \<comment> \<open>\<open>urls-final.txt\<close> after the workers have exited, in the order of their exits; the
      file is removed before the first worker starts\<close>
  "master_file parts = foldl append_part [] parts"

fun file_lines :: "string \<Rightarrow> string list" where
  \<comment> \<open>the lines of a text, each ended by LF; a last line without LF counts when it is
      not empty\<close>
  "file_lines [] = []"
| "file_lines (c # cs) =
     (if c = CHR 0x0A then [] # file_lines cs
      else (case file_lines cs of [] \<Rightarrow> [[c]] | l # ls \<Rightarrow> (c # l) # ls))"

definition mergeManifestDedup :: "string \<Rightarrow> string list" where
  \<comment> \<open>Modelled from the spec: \<open>mergeManifestDedup(master, outDir)\<close> is called by
      \<open>shard-run.js\<close> but defined in no file of the repository. The spec says of it: the
      master list, read line by line, is reduced to a set. The result is the list of the
      distinct URLs; the count the caller reports is its length.\<close>
  "mergeManifestDedup master = remdups (file_lines master)"

definition merge_step :: "bool \<Rightarrow> string list option list \<Rightarrow> string list option" where
  \<comment> \<open>what the orchestrator does when the last worker has exited: nothing when a stop
      was requested, else the merge\<close>
  "merge_step stopRequested parts =
     (if stopRequested then None else Some (mergeManifestDedup (master_file parts)))"

definition part_urls :: "string list option \<Rightarrow> string list" where
  "part_urls part = (case part of None \<Rightarrow> [] | Some urls \<Rightarrow> urls)"

section \<open>URL normalisation (\<open>normalizeUrl\<close> in \<open>src/match/normalize.js\<close>)\<close>

text \<open>
  The \<open>URL\<close> class of the platform is modelled on plain absolute URLs only:
  \<open>http://host/path?query#fragment\<close> or the same with \<open>https\<close>, the host made of labels
  of letters, digits and single hyphens whose last label starts with a letter, the path
  without dot segments, and nothing that the class would escape, unescape or rewrite. On
  these the class keeps the host in lower case and every other part as it is written.
  \<open>URL_parse\<close> is \<open>None\<close> for every other string, whether the class accepts it or not.
\<close>

record url_obj =
  protocol :: string             \<comment> \<open>\<open>http:\<close> or \<open>https:\<close>\<close>
  host :: string
  pathname :: string             \<comment> \<open>starts with a slash\<close>
  query :: "string option"       \<comment> \<open>the text after \<open>?\<close>, when there is a \<open>?\<close>\<close>
  fragment :: "string option"    \<comment> \<open>the text after \<open>#\<close>, when there is a \<open>#\<close>\<close>

definition is_alpha :: "char \<Rightarrow> bool" where
  "is_alpha c = (let n = (of_char c :: nat) in (65 \<le> n \<and> n \<le> 90) \<or> (97 \<le> n \<and> n \<le> 122))"

definition is_alnum :: "char \<Rightarrow> bool" where
  "is_alnum c = (is_alpha c \<or> is_digit c)"

definition plain_host :: "string \<Rightarrow> bool" where
  "plain_host h =
     (let labels = split_on (CHR ''.'') h
      in list_all (\<lambda>l. l \<noteq> [] \<and> list_all (\<lambda>c. is_alnum c \<or> c = CHR ''-'') l
                        \<and> \<not> includes_str l ''--'') labels
         \<and> is_alpha (hd (last labels)))"

definition plain_path :: "string \<Rightarrow> bool" where
  "plain_path p =
     (list_all (\<lambda>c. is_alnum c \<or> c \<in> set ''/-_.~'') p
      \<and> ''.'' \<notin> set (split_on (CHR ''/'') p) \<and> ''..'' \<notin> set (split_on (CHR ''/'') p))"

definition plain_query :: "string \<Rightarrow> bool" where
  "plain_query q = list_all (\<lambda>c. is_alnum c \<or> c \<in> set ''-_.*=&'') q"

definition plain_fragment :: "string \<Rightarrow> bool" where
  "plain_fragment f = list_all (\<lambda>c. is_alnum c \<or> c \<in> set ''-_.'') f"

definition URL_parse :: "string \<Rightarrow> url_obj option" where
  \<comment> \<open>\<open>new URL(u)\<close> on a plain URL\<close>
  "URL_parse u =
     (let scheme = (if ci_prefix ''http://'' u then ''http:''
                    else if ci_prefix ''https://'' u then ''https:'' else []);
          r0 = drop (length scheme + 2) u;
          h = takeWhile (\<lambda>c. c \<notin> set ''/?#'') r0;
          r1 = dropWhile (\<lambda>c. c \<notin> set ''/?#'') r0;
          p = takeWhile (\<lambda>c. c \<notin> set ''?#'') r1;
          r2 = dropWhile (\<lambda>c. c \<notin> set ''?#'') r1;
          q = (if r2 \<noteq> [] \<and> hd r2 = CHR ''?''
               then Some (takeWhile (\<lambda>c. c \<noteq> CHR ''#'') (tl r2)) else None);
          r3 = dropWhile (\<lambda>c. c \<noteq> CHR ''#'') r2;
          f = (if r3 = [] then None else Some (tl r3))
      in if scheme \<noteq> [] \<and> plain_host h \<and> plain_path p
            \<and> (case q of None \<Rightarrow> True | Some s \<Rightarrow> plain_query s)
            \<and> (case f of None \<Rightarrow> True | Some s \<Rightarrow> plain_fragment s)
         then Some \<lparr>protocol = scheme, host = toLowerCase h,
                     pathname = (if p = [] then ''/'' else p), query = q, fragment = f\<rparr>
         else None)"

definition URL_toString :: "url_obj \<Rightarrow> string" where
  \<comment> \<open>\<open>url.toString()\<close>\<close>
  "URL_toString uo =
     protocol uo @ ''//'' @ host uo @ pathname uo
       @ (case query uo of None \<Rightarrow> [] | Some q \<Rightarrow> CHR ''?'' # q)
       @ (case fragment uo of None \<Rightarrow> [] | Some f \<Rightarrow> CHR ''#'' # f)"

definition searchParams :: "url_obj \<Rightarrow> (string \<times> string) list" where
  \<comment> \<open>\<open>url.searchParams\<close>: the pairs of the query, a pair without \<open>=\<close> having the
      empty value\<close>
  "searchParams uo =
     (case query uo of
        None \<Rightarrow> []
      | Some q \<Rightarrow>
          map (\<lambda>s. (takeWhile (\<lambda>c. c \<noteq> CHR ''='') s, drop 1 (dropWhile (\<lambda>c. c \<noteq> CHR ''='') s)))
            (filter (\<lambda>s. s \<noteq> []) (split_on (CHR ''&'') q)))"

definition searchParams_keys :: "url_obj \<Rightarrow> string list" where
  "searchParams_keys uo = map fst (searchParams uo)"

definition searchParams_delete :: "string \<Rightarrow> url_obj \<Rightarrow> url_obj" where
  \<comment> \<open>\<open>url.searchParams.delete(k)\<close>: the pairs named \<open>k\<close> are removed and the query is
      written again from the pairs left, or removed when none is left\<close>
  "searchParams_delete k uo =
     (let ps = filter (\<lambda>(n, v). n \<noteq> k) (searchParams uo);
          s = join_with ''&'' (map (\<lambda>(n, v). n @ ''='' @ v) ps)
      in uo\<lparr>query := (if s = [] then None else Some s)\<rparr>)"

definition drop_params :: "string list" where
  "drop_params = [''utm_source'', ''utm_medium'', ''utm_campaign'', ''utm_term'', ''utm_content'',
                  ''gclid'', ''fbclid'']"

definition normalizeUrl :: "bool \<Rightarrow> string \<Rightarrow> string option" where
  \<comment> \<open>\<open>normalizeUrl(u, opts)\<close> with \<open>keepPageParam = !!opts.keepPageParam\<close>; \<open>None\<close> when
      \<open>u\<close> is not a plain URL\<close>
  "normalizeUrl keepPageParam u =
     (case URL_parse u of
        None \<Rightarrow> None
      | Some url0 \<Rightarrow>
          let url1 = url0\<lparr>fragment := None\<rparr>;
              url2 = foldl (\<lambda>uo k. if toLowerCase k \<in> set drop_params
                                      then searchParams_delete k uo else uo)
                       url1 (searchParams_keys url1);
              url3 = (if \<not> keepPageParam \<and> ''page'' \<in> set (searchParams_keys url2)
                      then searchParams_delete ''page'' url2 else url2);
              url4 = url3\<lparr>host := toLowerCase (host url3)\<rparr>;
              url5 = (if searchParams_keys url4 = [] then url4\<lparr>query := None\<rparr> else url4);
              url6 = (if length (pathname url5) > 1 \<and> endsWith (pathname url5) ''/''
                      then url5\<lparr>pathname := butlast (pathname url5)\<rparr> else url5)
          in Some (URL_toString url6))"

section \<open>Shared lemmas\<close>

lemma map_filter_as_filter:
  "List.map_filter f xs = map (\<lambda>x. the (f x)) (filter (\<lambda>x. f x \<noteq> None) xs)"
  by (induction xs) (auto simp: List.map_filter_simps split: option.splits)

lemma hd_sort_key_least:
  assumes "xs \<noteq> []" "x \<in> set xs"
  shows "f (hd (sort_key f xs)) \<le> f x"
proof -
  have s: "sorted (map f (sort_key f xs))" by simp
  have ne: "sort_key f xs \<noteq> []" using assms(1) by (metis set_sort set_empty)
  then obtain y ys where e: "sort_key f xs = y # ys" by (cases "sort_key f xs") auto
  have "x \<in> set (y # ys)" using assms(2) e by (metis set_sort)
  then show ?thesis using s e by auto
qed

lemma top_of_sorted:
  fixes f :: "'a \<Rightarrow> real"
  assumes "xs \<noteq> []"
  shows "filter (\<lambda>x. f x = f (hd (sort_key (\<lambda>x. - f x) xs))) (sort_key (\<lambda>x. - f x) xs)
       = filter (\<lambda>x. \<forall>y \<in> set xs. f y \<le> f x) xs"
proof -
  let ?h = "hd (sort_key (\<lambda>x. - f x) xs)"
  have hin: "?h \<in> set xs"
    using assms by (metis hd_in_set set_sort set_empty)
  have hmax: "f y \<le> f ?h" if "y \<in> set xs" for y
    using hd_sort_key_least[OF assms that, of "\<lambda>x. - f x"] by simp
  have "filter (\<lambda>x. f x = f ?h) (sort_key (\<lambda>x. - f x) xs)
      = filter (\<lambda>x. - f x = - f ?h) (sort_key (\<lambda>x. - f x) xs)" by simp
  also have "\<dots> = filter (\<lambda>x. - f x = - f ?h) xs" by (rule sort_key_stable)
  also have "\<dots> = filter (\<lambda>x. \<forall>y \<in> set xs. f y \<le> f x) xs"
  proof (rule filter_cong[OF refl])
    fix x assume "x \<in> set xs"
    show "(- f x = - f ?h) = (\<forall>y \<in> set xs. f y \<le> f x)"
      using hmax hin \<open>x \<in> set xs\<close> by (auto intro: antisym)
  qed
  finally show ?thesis .
qed

lemma scored_eq:
  "filter (\<lambda>x. T \<le> snd x) (map (\<lambda>p. (p, g p)) pages)
     = map (\<lambda>p. (p, g p)) (filter (\<lambda>p. T \<le> g p) pages)"
  by (induction pages) auto

lemma fuzzy_top:
  fixes g :: "'a \<Rightarrow> real"
  assumes ne: "filter (\<lambda>p. T \<le> g p) pages \<noteq> []"
  shows "map fst (filter (\<lambda>x. snd x = snd (hd (sort_key (\<lambda>x. - snd x)
                 (filter (\<lambda>x. T \<le> snd x) (map (\<lambda>p. (p, g p)) pages)))))
            (sort_key (\<lambda>x. - snd x) (filter (\<lambda>x. T \<le> snd x) (map (\<lambda>p. (p, g p)) pages))))
       = filter (\<lambda>p. \<forall>q \<in> set (filter (\<lambda>p. T \<le> g p) pages). g q \<le> g p)
           (filter (\<lambda>p. T \<le> g p) pages)"
proof -
  define fz where "fz = filter (\<lambda>p. T \<le> g p) pages"
  define sc where "sc = map (\<lambda>p. (p, g p)) fz"
  have sc_ne: "sc \<noteq> []" using ne by (simp add: sc_def fz_def)
  have top: "filter (\<lambda>x. snd x = snd (hd (sort_key (\<lambda>x. - snd x) sc))) (sort_key (\<lambda>x. - snd x) sc)
             = filter (\<lambda>x. \<forall>y \<in> set sc. snd y \<le> snd x) sc"
    by (rule top_of_sorted[OF sc_ne])
  have "map fst (filter (\<lambda>x. \<forall>y \<in> set sc. snd y \<le> snd x) sc)
        = filter (\<lambda>p. \<forall>q \<in> set fz. g q \<le> g p) fz"
    unfolding sc_def by (induction fz) (auto simp: filter_map comp_def)
  then show ?thesis
    unfolding scored_eq top fz_def[symmetric] sc_def[symmetric] by (simp only: top)
qed

lemma claim_loop_stop:
  "\<not> (case m of None \<Rightarrow> False | Some k \<Rightarrow> int i < k) \<Longrightarrow> claim_loop opn m s i = (Exhausted, [])"
  by (subst claim_loop.simps) simp

lemma claim_loop_opened:
  "(case m of None \<Rightarrow> False | Some k \<Rightarrow> int i < k) \<Longrightarrow> opn i = None
     \<Longrightarrow> claim_loop opn m s i = (Opened, [Open i])"
  by (subst claim_loop.simps) simp

lemma claim_loop_refused:
  "(case m of None \<Rightarrow> False | Some k \<Rightarrow> int i < k) \<Longrightarrow> opn i = Some e
     \<Longrightarrow> e = EEXIST \<or> \<not> transient e
     \<Longrightarrow> claim_loop opn m s i = (Refused, [Open i])"
  by (subst claim_loop.simps) auto

lemma claim_loop_retry:
  "(case m of None \<Rightarrow> False | Some k \<Rightarrow> int i < k) \<Longrightarrow> opn i = Some e
     \<Longrightarrow> e \<noteq> EEXIST \<Longrightarrow> transient e
     \<Longrightarrow> claim_loop opn m s i
           = (fst (claim_loop opn m s (Suc i)),
              Open i # Sleep s # snd (claim_loop opn m s (Suc i)))"
  by (subst claim_loop.simps) (simp add: case_prod_beta)

lemma claim_loop_cases:
  obtains (stop) "claim_loop opn m s i = (Exhausted, [])"
    | (opened) "(case m of None \<Rightarrow> False | Some k \<Rightarrow> int i < k)"
        "claim_loop opn m s i = (Opened, [Open i])"
    | (refused) e where "opn i = Some e" "e = EEXIST \<or> \<not> transient e"
        "(case m of None \<Rightarrow> False | Some k \<Rightarrow> int i < k)"
        "claim_loop opn m s i = (Refused, [Open i])"
    | (retry) e where "opn i = Some e" "e \<noteq> EEXIST" "transient e"
        "(case m of None \<Rightarrow> False | Some k \<Rightarrow> int i < k)"
        "claim_loop opn m s i
           = (fst (claim_loop opn m s (Suc i)),
              Open i # Sleep s # snd (claim_loop opn m s (Suc i)))"
proof (cases "(case m of None \<Rightarrow> False | Some k \<Rightarrow> int i < k)")
  case False
  show ?thesis by (rule stop[OF claim_loop_stop[where opn = opn and s = s, OF False]])
next
  case c: True
  show ?thesis
  proof (cases "opn i")
    case None
    show ?thesis by (rule opened[OF c claim_loop_opened[where opn = opn and i = i and s = s, OF c None]])
  next
    case (Some e)
    show ?thesis
    proof (cases "e = EEXIST \<or> \<not> transient e")
      case True
      show ?thesis by (rule refused[OF Some True c claim_loop_refused[where opn = opn and i = i and s = s, OF c Some True]])
    next
      case False
      then have ne: "e \<noteq> EEXIST" and tr: "transient e" by auto
      show ?thesis by (rule retry[OF Some ne tr c claim_loop_retry[where opn = opn and i = i and s = s, OF c Some ne tr]])
    qed
  qed
qed




lemma claim_loop_open_ge:
  "Open j \<in> set (snd (claim_loop opn m s i)) \<Longrightarrow> i \<le> j"
proof (induction opn m s i rule: claim_loop.induct)
  case (1 opn m s i)
  show ?case
  proof (cases rule: claim_loop_cases[of opn m s i])
    case stop
    then show ?thesis using "1.prems" by simp
  next
    case opened
    then show ?thesis using "1.prems" by simp
  next
    case (refused e)
    then show ?thesis using "1.prems" by simp
  next
    case (retry e)
    have "Open j \<in> set (snd (claim_loop opn m s (Suc i))) \<Longrightarrow> Suc i \<le> j"
      using "1.IH" retry(1-4) by simp
    then show ?thesis
      using "1.prems" by (auto simp: retry(5))
  qed
qed




subsection \<open>The scan of a bucket, line by line\<close>

lemma split_on_nonempty: "split_on c s \<noteq> []"
  by (induction s) (auto split: list.splits)

lemma scan_lines_unbound:
  "ls \<noteq> [] \<Longrightarrow> scan_lines env d pos None i ls = Inl ReferenceError"
  by (cases ls) (simp_all add: Let_def)

lemma scan_lines_nothing:
  "scan_lines env d pos (Some a) i ls = Inr (None, ws) \<Longrightarrow> ws = [pos]"
proof (induction ls arbitrary: a i)
  case Nil
  then show ?case by simp
next
  case (Cons l ls)
  then show ?case
    by (auto simp: Let_def split: if_splits sum.splits option.splits prod.splits)
qed

lemma line_bytes_0:
  "line_bytes (l # ls) 0 = int (length l) + (if ls \<noteq> [] then 1 else 0)"
  by (simp add: line_bytes_def)

lemma line_bytes_Suc:
  "line_bytes (l # ls) (Suc j) = int (length l) + (if ls \<noteq> [] then 1 else 0) + line_bytes ls j"
proof -
  have "[0..<Suc (Suc j)] = 0 # map Suc [0..<Suc j]"
    by (metis map_Suc_upt upt_conv_Cons zero_less_Suc)
  then show ?thesis
    by (simp add: line_bytes_def comp_def del: upt_Suc)
qed

lemma withNl_length:
  "int (length (if ls \<noteq> [] then l @ [CHR 0x0A] else l)) = int (length l) + (if ls \<noteq> [] then 1 else 0)"
  by simp

lemma scan_lines_skip:
  assumes "skipped env d i l"
  shows "scan_lines env d pos (Some a) i (l # ls)
           = scan_lines env d pos (Some (a + (int (length l) + (if ls \<noteq> [] then 1 else 0)))) (Suc i) ls"
proof -
  consider (e) "trim l = []"
    | (r) "trim l \<noteq> []" "\<not> accepts env (trim l)"
    | (t) tr where "tryClaim (ledger env i) d (trim l) = Inr (None, tr)"
    using assms unfolding skipped_def by blast
  then show ?thesis
  proof cases
    case e
    then show ?thesis unfolding scan_lines.simps Let_def withNl_length by simp
  next
    case r
    then show ?thesis unfolding scan_lines.simps Let_def withNl_length by simp
  next
    case t
    then show ?thesis unfolding scan_lines.simps Let_def withNl_length by simp
  qed
qed

lemma scan_lines_try:
  assumes "\<not> skipped env d i l"
  shows "scan_lines env d pos (Some a) i (l # ls)
           = (case tryClaim (ledger env i) d (trim l) of
                Inl e \<Rightarrow> Inl e
              | Inr (r, tr) \<Rightarrow>
                  Inr (r, [pos + (a + (int (length l) + (if ls \<noteq> [] then 1 else 0)))]))"
proof -
  have ne: "trim l \<noteq> []"
    and acc: "accepts env (trim l)"
    and nd: "\<And>tr. tryClaim (ledger env i) d (trim l) \<noteq> Inr (None, tr)"
    using assms unfolding skipped_def by auto
  show ?thesis
  proof (cases "tryClaim (ledger env i) d (trim l)")
    case (Inl e)
    then show ?thesis unfolding scan_lines.simps Let_def withNl_length using ne acc by simp
  next
    case (Inr p)
    obtain r tr where p: "p = (r, tr)" by (cases p)
    with Inr nd obtain c where r: "r = Some c" by (cases r) auto
    show ?thesis unfolding scan_lines.simps Let_def withNl_length using ne acc Inr p r by simp
  qed
qed

lemma scan_lines_claim:
  "scan_lines env d pos (Some a) i ls = Inr (Some c, ws) \<Longrightarrow>
     \<exists>j<length ls. trim (ls ! j) \<noteq> []
        \<and> accepts env (trim (ls ! j))
        \<and> (\<exists>tr. tryClaim (ledger env (i + j)) d (trim (ls ! j)) = Inr (Some c, tr))
        \<and> (\<forall>k<j. skipped env d (i + k) (ls ! k))
        \<and> ws = [pos + a + line_bytes ls j]"
proof (induction ls arbitrary: a i)
  case Nil
  then show ?case by simp
next
  case (Cons l ls)
  let ?inc = "int (length l) + (if ls \<noteq> [] then 1 else 0)"
  show ?case
  proof (cases "skipped env d i l")
    case True
    with Cons.prems have "scan_lines env d pos (Some (a + ?inc)) (Suc i) ls = Inr (Some c, ws)"
      by (simp only: scan_lines_skip)
    from Cons.IH[OF this] obtain j where j: "j < length ls" "trim (ls ! j) \<noteq> []"
      "accepts env (trim (ls ! j))"
      "\<exists>tr. tryClaim (ledger env (Suc i + j)) d (trim (ls ! j)) = Inr (Some c, tr)"
      "\<forall>k<j. skipped env d (Suc i + k) (ls ! k)"
      "ws = [pos + (a + ?inc) + line_bytes ls j]"
      by blast
    have sk: "\<forall>k<Suc j. skipped env d (i + k) ((l # ls) ! k)"
    proof (intro allI impI)
      fix k assume "k < Suc j"
      then show "skipped env d (i + k) ((l # ls) ! k)"
        using True j(5) by (cases k) auto
    qed
    have w: "ws = [pos + a + line_bytes (l # ls) (Suc j)]"
      using j(6) by (simp only: line_bytes_Suc) simp
    have a: "Suc j < length (l # ls)" using j(1) by simp
    have b: "trim ((l # ls) ! Suc j) \<noteq> []" using j(2) by simp
    have c: "accepts env (trim ((l # ls) ! Suc j))"
      using j(3) by simp
    have d: "\<exists>tr. tryClaim (ledger env (i + Suc j)) d (trim ((l # ls) ! Suc j)) = Inr (Some c, tr)"
      using j(4) by simp
    show ?thesis
      using a b c d sk w by blast
  next
    case False
    have ne: "trim l \<noteq> []"
      and acc: "accepts env (trim l)"
      using False by (auto simp: skipped_def split: option.splits)
    from Cons.prems
    have "(\<exists>tr. tryClaim (ledger env i) d (trim l) = Inr (Some c, tr)) \<and> ws = [pos + a + ?inc]"
      unfolding scan_lines_try[OF False]
      by (auto split: sum.splits prod.splits)
    with ne acc show ?thesis
      by (intro exI[of _ 0]) (simp add: line_bytes_0)
  qed
qed

lemma tryClaim_url:
  "tryClaim cenv d u = Inr (Some c, tr) \<Longrightarrow> claim_url c = u"
  by (auto simp: tryClaim_def Let_def split: if_splits prod.splits)

lemma cursor_bucket0: "cursor (bucket0 txt None acc) = 0"
  by (simp add: cursor_def bucket0_def)








subsection \<open>The master file, line by line\<close>

lemma file_lines_line:
  "CHR 0x0A \<notin> set u \<Longrightarrow> file_lines (u @ CHR 0x0A # rest) = u # file_lines rest"
  by (induction u) auto

lemma file_lines_terminated:
  "\<forall>u \<in> set us. CHR 0x0A \<notin> set u
     \<Longrightarrow> file_lines (concat (map (\<lambda>u. u @ [CHR 0x0A]) us)) = us"
  by (induction us) (simp_all add: file_lines_line)

lemma foldl_append_part:
  "foldl append_part m parts
     = m @ concat (map (\<lambda>u. u @ [CHR 0x0A]) (concat (map part_urls parts)))"
  by (induction parts arbitrary: m) (auto simp: append_part_def part_urls_def split: option.splits)


section \<open>C1: claiming the next line of a bucket\<close>

text \<open>
  The specification reads the loop of \<open>claimNextBucket\<close> with \<open>advanced\<close> starting at 0.
  On that reading a call that returns a claim returns it for the first line of the unread
  text that is not blank, is accepted by the predicate and is granted by the ledger; every
  earlier line was passed over; and the cursor written is the old cursor plus the bytes of
  the lines up to the claimed one, counted after \<open>CR LF\<close> has been replaced by \<open>LF\<close>.
\<close>

lemma claimNextBucket_with_first_claimable:
  assumes ret: "claimNextBucket_with (Some 0) env d = Inr (Some c, ws)"
  shows "\<exists>j<length (split_on (CHR 0x0A) (crlf_to_lf (drop (nat (cursor env)) (bucket_bytes env)))).
           claim_url c
             = trim (split_on (CHR 0x0A) (crlf_to_lf (drop (nat (cursor env)) (bucket_bytes env))) ! j)
         \<and> claim_url c \<noteq> [] \<and> accepts env (claim_url c)
         \<and> (\<forall>k<j. skipped env d k
                 (split_on (CHR 0x0A) (crlf_to_lf (drop (nat (cursor env)) (bucket_bytes env))) ! k))
         \<and> ws = [cursor env
                  + line_bytes (split_on (CHR 0x0A)
                                  (crlf_to_lf (drop (nat (cursor env)) (bucket_bytes env)))) j]"
proof -
  define ls where "ls = split_on (CHR 0x0A) (crlf_to_lf (drop (nat (cursor env)) (bucket_bytes env)))"
  have "scan_lines env d (cursor env) (Some 0) 0 ls = Inr (Some c, ws)"
    using ret unfolding claimNextBucket_with_def Let_def ls_def
    by (simp split: if_splits)
  from scan_lines_claim[OF this] obtain j tr where j: "j < length ls" "trim (ls ! j) \<noteq> []"
    "accepts env (trim (ls ! j))"
    "tryClaim (ledger env (0 + j)) d (trim (ls ! j)) = Inr (Some c, tr)"
    "\<forall>k<j. skipped env d (0 + k) (ls ! k)"
    "ws = [cursor env + 0 + line_bytes ls j]"
    by blast
  have u: "claim_url c = trim (ls ! j)" using tryClaim_url[OF j(4)] .
  have "claim_url c = trim (ls ! j) \<and> claim_url c \<noteq> [] \<and> accepts env (claim_url c)
        \<and> (\<forall>k<j. skipped env d k (ls ! k)) \<and> ws = [cursor env + line_bytes ls j]"
    using j u by simp
  then show ?thesis using j(1) unfolding ls_def by blast
qed

lemma claimNextBucket_with_claims:
  "claimNextBucket_with (Some 0) (bucket0 ''http://x/a\<newline>'' None None) ''locks''
     = Inr (Some \<lparr>claim_url = ''http://x/a'', lockPath = ''locks/da39.lock'',
                   donePath = ''locks/da39.done''\<rparr>, [11])"
  by code_simp

text \<open>
  C1 (the code departs from the claim). When the bucket can be read and holds bytes beyond
  the cursor, the function as it is in the file throws a \<open>ReferenceError\<close> in the first
  pass of its loop, because \<open>advanced\<close> is declared nowhere: it returns no claim and
  writes no cursor. With \<open>advanced\<close> starting at 0, as the specification assumes, a call
  that returns nothing writes the cursor it read: the lines that failed the predicate, or
  that the ledger refused, have not advanced it, although the comment on that statement
  says \<open>advance cursor to EOF\<close>.
\<close>

theorem claimNextBucket_departs:
  assumes io: "\<not> frontier_mkdir_fails env" "\<not> bucket_read_fails env"
    and pending: "cursor env < int (length (bucket_bytes env))"
  shows "claimNextBucket env d = Inl ReferenceError
       \<and> (\<forall>ws. claimNextBucket_with (Some 0) env d = Inr (None, ws) \<longrightarrow> ws = [cursor env])"
proof -
  let ?ls = "split_on (CHR 0x0A) (crlf_to_lf (drop (nat (cursor env)) (bucket_bytes env)))"
  have w: "claimNextBucket_with adv env d = scan_lines env d (cursor env) adv 0 ?ls" for adv
    using io pending unfolding claimNextBucket_with_def Let_def by simp
  have a: "claimNextBucket env d = Inl ReferenceError"
    unfolding claimNextBucket_def w by (rule scan_lines_unbound[OF split_on_nonempty])
  have b: "\<forall>ws. claimNextBucket_with (Some 0) env d = Inr (None, ws) \<longrightarrow> ws = [cursor env]"
    unfolding w using scan_lines_nothing by blast
  show ?thesis by (rule conjI[OF a b])
qed

theorem claimNextBucket_departs_witness:
  "claimNextBucket (bucket0 ''http://x/a\<newline>'' None (Some (\<lambda>u. False))) ''locks'' = Inl ReferenceError
   \<and> claimNextBucket_with (Some 0) (bucket0 ''http://x/a\<newline>'' None (Some (\<lambda>u. False))) ''locks''
       = Inr (None, [0])"
proof -
  let ?env = "bucket0 ''http://x/a\<newline>'' None (Some (\<lambda>u. False))"
  have io: "\<not> frontier_mkdir_fails ?env" "\<not> bucket_read_fails ?env"
    by (simp_all add: bucket0_def)
  have pending: "cursor ?env < int (length (bucket_bytes ?env))"
    by (simp add: cursor_bucket0) (simp add: bucket0_def bucket_bytes_def strip_bom_def)
  note t = claimNextBucket_departs[OF io pending, of "''locks''"]
  have r: "\<exists>ws. claimNextBucket_with (Some 0) ?env ''locks'' = Inr (None, ws)"
    by (simp add: claimNextBucket_with_def cursor_bucket0 Let_def)
       (simp add: bucket0_def bucket_bytes_def strip_bom_def accepts_def trim_def Let_def)
  then obtain ws where ws: "claimNextBucket_with (Some 0) ?env ''locks'' = Inr (None, ws)" by blast
  then have "ws = [cursor ?env]" using t by blast
  then have "claimNextBucket_with (Some 0) ?env ''locks'' = Inr (None, [0])"
    using ws by (simp add: cursor_bucket0)
  then show ?thesis using t by blast
qed

text \<open>
  The bytes are counted after \<open>CR LF\<close> has become \<open>LF\<close>, so on a text with \<open>CR LF\<close> line
  ends the cursor falls short by one byte for every line scanned: here it stops inside the
  claimed line, and the next call claims the rest of that line, \<open>c\<close>, as a URL.
\<close>

lemma crlf_cursor_falls_short:
  "claimNextBucket_with (Some 0)
      (bucket0 (''aa'' @ [CHR 0x0D, CHR 0x0A] @ ''bb'' @ [CHR 0x0D, CHR 0x0A] @ ''cc'' @ [CHR 0x0D, CHR 0x0A])
         None (Some (\<lambda>u. u \<noteq> ''aa'' \<and> u \<noteq> ''bb''))) ''locks''
     = Inr (Some \<lparr>claim_url = ''cc'', lockPath = ''locks/da39.lock'',
                   donePath = ''locks/da39.done''\<rparr>, [9])
   \<and> claimNextBucket_with (Some 0)
      (bucket0 (''aa'' @ [CHR 0x0D, CHR 0x0A] @ ''bb'' @ [CHR 0x0D, CHR 0x0A] @ ''cc'' @ [CHR 0x0D, CHR 0x0A])
         (Some ''9'') (Some (\<lambda>u. u \<noteq> ''aa'' \<and> u \<noteq> ''bb''))) ''locks''
     = Inr (Some \<lparr>claim_url = ''c'', lockPath = ''locks/da39.lock'',
                   donePath = ''locks/da39.done''\<rparr>, [11])"
  by code_simp


section \<open>C2: the merged URL list\<close>

text \<open>
  C2. The workers' URL lists are appended to the master file one URL per line, in the
  order in which the workers exit; a worker whose part file is missing or unreadable
  contributes nothing. When no URL contains a line feed and no stop was requested, the
  merge step yields a list without duplicates whose elements are exactly the URLs of the
  per-worker lists: the union of the lists with duplicates removed. When a stop was
  requested there is no merge. The append is the one of \<open>shard-run.js\<close>; the reduction
  \<open>mergeManifestDedup\<close> is called there but defined in no file of the repository, and is
  taken from the specification.
\<close>

theorem merged_url_set:
  assumes nl: "\<forall>p \<in> set parts. \<forall>u \<in> set (part_urls p). CHR 0x0A \<notin> set u"
  shows "merge_step False parts = Some (mergeManifestDedup (master_file parts))
       \<and> set (mergeManifestDedup (master_file parts)) = (\<Union>p \<in> set parts. set (part_urls p))
       \<and> distinct (mergeManifestDedup (master_file parts))
       \<and> merge_step True parts = None"
proof -
  have "master_file parts = concat (map (\<lambda>u. u @ [CHR 0x0A]) (concat (map part_urls parts)))"
    by (simp add: master_file_def foldl_append_part)
  moreover have "\<forall>u \<in> set (concat (map part_urls parts)). CHR 0x0A \<notin> set u"
    using nl by auto
  ultimately have "file_lines (master_file parts) = concat (map part_urls parts)"
    by (simp add: file_lines_terminated)
  then show ?thesis
    by (simp add: mergeManifestDedup_def merge_step_def)
qed

theorem merged_url_set_witness:
  "merge_step False [Some [''http://x/a'', ''http://x/b''], None, Some [''http://x/b'', ''http://x/c'']]
     = Some [''http://x/a'', ''http://x/b'', ''http://x/c'']
   \<and> set [''http://x/a'', ''http://x/b'', ''http://x/c'']
       = set [''http://x/a'', ''http://x/b''] \<union> set [''http://x/b'', ''http://x/c'']"
proof -
  let ?parts = "[Some [''http://x/a'', ''http://x/b''], None, Some [''http://x/b'', ''http://x/c'']]"
  have nl: "\<forall>p \<in> set ?parts. \<forall>u \<in> set (part_urls p). CHR 0x0A \<notin> set u"
    by (simp add: part_urls_def)
  have ev: "mergeManifestDedup (master_file ?parts) = [''http://x/a'', ''http://x/b'', ''http://x/c'']"
    by code_simp
  have "merge_step False ?parts = Some [''http://x/a'', ''http://x/b'', ''http://x/c'']"
    using merged_url_set[OF nl, THEN conjunct1] ev by simp
  then show ?thesis by auto
qed


section \<open>C3: the output gate and \<open>existence_csv\<close>\<close>

text \<open>
  C3 (as amended). For a selection that contains \<open>existence_csv\<close>: the gate of the
  control panel (\<open>validateOutputs\<close> of \<open>telemetry.js\<close>, applied by \<open>POST /config\<close>)
  reports no error for \<open>existence_csv\<close> exactly when an input file exists and the first
  column's URL share is at least \<open>0.6\<close> or the inferred roles contain \<open>url\<close>; when it
  rejects, the reply has \<open>valid = false\<close> and an error with key \<open>existence_csv\<close> and a
  reason. The stand-alone gate of \<open>output-gating.js\<close> accepts exactly when an input
  file exists and the share is at least \<open>0.6\<close>, whatever the roles; when it rejects,
  \<open>ok = false\<close> and an error message starts with \<open>existence_csv\<close>.
\<close>

theorem output_gate_existence:
  fixes sh :: "string list shape" and lsh :: "(string list list, 'z) shape_scheme"
  assumes sel: "''existence_csv'' \<in> set sel"
  shows
    "((\<forall>e \<in> set (validateOutputs sel (Some sh)). key e \<noteq> ''existence_csv'')
        \<longleftrightarrow> exists sh \<and> (firstColUrlShare sh \<ge> 0.6 \<or> ''url'' \<in> set (inferredRoles sh)))
     \<and> (\<not> (exists (sniffCsvShape inp)
             \<and> (firstColUrlShare (sniffCsvShape inp) \<ge> 0.6
                  \<or> ''url'' \<in> set (inferredRoles (sniffCsvShape inp))))
          \<longrightarrow> \<not> valid (post_config earlier sel inp)
              \<and> (\<exists>e \<in> set (reply_errors (post_config earlier sel inp)).
                     key e = ''existence_csv'' \<and> reason e \<noteq> []))
     \<and> (exists (sniffCsvShape inp)
          \<and> (firstColUrlShare (sniffCsvShape inp) \<ge> 0.6
                \<or> ''url'' \<in> set (inferredRoles (sniffCsvShape inp)))
          \<and> ''comparison_csv'' \<notin> set sel
          \<longrightarrow> valid (post_config [] sel inp))
     \<and> ((\<forall>e \<in> set (errors (lib_validateOutputs (Some lsh) sel)). \<not> startsWith e ''existence_csv'')
        \<longleftrightarrow> exists lsh \<and> firstColUrlShare lsh \<ge> 0.6)
     \<and> (\<not> (exists lsh \<and> firstColUrlShare lsh \<ge> 0.6)
          \<longrightarrow> \<not> ok (lib_validateOutputs (Some lsh) sel)
              \<and> (\<exists>e \<in> set (errors (lib_validateOutputs (Some lsh) sel)).
                     startsWith e ''existence_csv''))"
proof -
  have sw: "startsWith msg_existence_input ''existence_csv''"
           "startsWith msg_existence_urlish ''existence_csv''"
           "\<not> startsWith msg_comparison_input ''existence_csv''"
           "\<not> startsWith msg_comparison_roles ''existence_csv''"
    by (simp_all add: startsWith_def msg_existence_input_def msg_existence_urlish_def
          msg_comparison_input_def msg_comparison_roles_def)
  have tele: "(\<forall>e \<in> set (validateOutputs sel (Some s)). key e \<noteq> ''existence_csv'')
        \<longleftrightarrow> exists s \<and> (firstColUrlShare s \<ge> 0.6 \<or> ''url'' \<in> set (inferredRoles s))"
    for s :: "string list shape"
    using sel
    by (cases "exists s"; cases "firstColUrlShare s \<ge> 0.6"; cases "''url'' \<in> set (inferredRoles s)";
        cases "''comparison_csv'' \<in> set sel";
        cases "''title'' \<notin> set (inferredRoles s) \<and> ''description'' \<notin> set (inferredRoles s)";
        simp add: validateOutputs_def Let_def)
  have rej: "\<exists>e \<in> set (validateOutputs sel (Some s)). key e = ''existence_csv'' \<and> reason e \<noteq> []"
    if "\<not> (exists s \<and> (firstColUrlShare s \<ge> 0.6 \<or> ''url'' \<in> set (inferredRoles s)))"
    for s :: "string list shape"
    using sel that
    by (cases "exists s"; cases "firstColUrlShare s \<ge> 0.6"; cases "''url'' \<in> set (inferredRoles s)";
        simp add: validateOutputs_def Let_def)
  have acc: "validateOutputs sel (Some s) = []"
    if "exists s \<and> (firstColUrlShare s \<ge> 0.6 \<or> ''url'' \<in> set (inferredRoles s))"
       "''comparison_csv'' \<notin> set sel"
    for s :: "string list shape"
    using sel that
    by (cases "firstColUrlShare s \<ge> 0.6"; cases "''url'' \<in> set (inferredRoles s)";
        simp add: validateOutputs_def Let_def)
  define roles where "roles = (case inferredRoles lsh of [] \<Rightarrow> [] | r # _ \<Rightarrow> r)"
  have lib: "(\<forall>e \<in> set (errors (lib_validateOutputs (Some lsh) sel)). \<not> startsWith e ''existence_csv'')
        \<longleftrightarrow> exists lsh \<and> firstColUrlShare lsh \<ge> 0.6"
    using sel sw
    by (cases "exists lsh"; cases "firstColUrlShare lsh \<ge> 0.6";
        cases "''comparison_csv'' \<in> set sel";
        cases "''title'' \<in> set roles \<or> ''description'' \<in> set roles";
        simp add: lib_validateOutputs_def Let_def roles_def[symmetric])
  have librej: "\<not> ok (lib_validateOutputs (Some lsh) sel)
              \<and> (\<exists>e \<in> set (errors (lib_validateOutputs (Some lsh) sel)).
                     startsWith e ''existence_csv'')"
    if "\<not> (exists lsh \<and> firstColUrlShare lsh \<ge> 0.6)"
    using sel that sw
    by (cases "exists lsh"; cases "firstColUrlShare lsh \<ge> 0.6";
        simp add: lib_validateOutputs_def Let_def)
  have post_valid: "valid (post_config earlier sel inp)
      = (earlier = [] \<and> validateOutputs sel (Some (sniffCsvShape inp)) = [])"
    for earlier
    by (simp add: post_config_def Let_def)
  have post_errs: "set (reply_errors (post_config earlier sel inp))
      = set earlier \<union> set (validateOutputs sel (Some (sniffCsvShape inp)))"
    by (simp add: post_config_def Let_def)
  have c2: "\<not> (exists (sniffCsvShape inp)
             \<and> (firstColUrlShare (sniffCsvShape inp) \<ge> 0.6
                  \<or> ''url'' \<in> set (inferredRoles (sniffCsvShape inp))))
          \<longrightarrow> \<not> valid (post_config earlier sel inp)
              \<and> (\<exists>e \<in> set (reply_errors (post_config earlier sel inp)).
                     key e = ''existence_csv'' \<and> reason e \<noteq> [])"
  proof
    assume n: "\<not> (exists (sniffCsvShape inp)
             \<and> (firstColUrlShare (sniffCsvShape inp) \<ge> 0.6
                  \<or> ''url'' \<in> set (inferredRoles (sniffCsvShape inp))))"
    from rej[OF n] obtain e where e: "e \<in> set (validateOutputs sel (Some (sniffCsvShape inp)))"
      "key e = ''existence_csv''" "reason e \<noteq> []" by blast
    then have "validateOutputs sel (Some (sniffCsvShape inp)) \<noteq> []" by auto
    then have "\<not> valid (post_config earlier sel inp)" by (simp add: post_valid)
    moreover have "e \<in> set (reply_errors (post_config earlier sel inp))"
      using e(1) by (simp add: post_errs)
    ultimately show "\<not> valid (post_config earlier sel inp)
              \<and> (\<exists>e \<in> set (reply_errors (post_config earlier sel inp)).
                     key e = ''existence_csv'' \<and> reason e \<noteq> [])"
      using e(2,3) by blast
  qed
  have c3: "exists (sniffCsvShape inp)
          \<and> (firstColUrlShare (sniffCsvShape inp) \<ge> 0.6
                \<or> ''url'' \<in> set (inferredRoles (sniffCsvShape inp)))
          \<and> ''comparison_csv'' \<notin> set sel
          \<longrightarrow> valid (post_config [] sel inp)"
    using acc[of "sniffCsvShape inp"] by (simp add: post_valid)
  have c5: "\<not> (exists lsh \<and> firstColUrlShare lsh \<ge> 0.6)
          \<longrightarrow> \<not> ok (lib_validateOutputs (Some lsh) sel)
              \<and> (\<exists>e \<in> set (errors (lib_validateOutputs (Some lsh) sel)).
                     startsWith e ''existence_csv'')"
    using librej by (rule impI)
  show ?thesis
    by (rule conjI[OF tele conjI[OF c2 conjI[OF c3 conjI[OF lib c5]]]])
qed

theorem output_gate_existence_witness:
  "valid (post_config [] [''existence_csv''] (Some ''/a\<newline>/b''))
   \<and> \<not> valid (post_config [] [''existence_csv''] (Some ''Home Page,Welcome''))
   \<and> \<not> ok (lib_validateOutputs (Some (lib_sniffCsvShape ''Home Page,Welcome''))
             [''existence_csv''])"
proof -
  have s1: "sniffCsvShape (Some ''/a\<newline>/b'')
      = \<lparr>exists = True, cols = 1, firstColUrlShare = 1, firstRowIsUrl = True,
         inferredRoles = [''url'']\<rparr>"
    by code_simp
  have s2: "sniffCsvShape (Some ''Home Page,Welcome'')
      = \<lparr>exists = True, cols = 2, firstColUrlShare = 0, firstRowIsUrl = False,
         inferredRoles = [''title'', ''description'']\<rparr>"
    by code_simp
  have s3: "lib_sniffCsvShape ''Home Page,Welcome''
      = \<lparr>exists = True, cols = 2, firstColUrlShare = 0, firstRowIsUrl = False,
         inferredRoles = [[''title'', ''description'']], delim = CHR '',''\<rparr>"
    by code_simp
  have m: "''existence_csv'' \<in> set [''existence_csv'']" by simp
  have "valid (post_config [] [''existence_csv''] (Some ''/a\<newline>/b''))"
    using output_gate_existence[OF m, where inp = "Some ''/a\<newline>/b''",
            THEN conjunct2, THEN conjunct2, THEN conjunct1]
    by (simp add: s1)
  moreover have "\<not> valid (post_config [] [''existence_csv''] (Some ''Home Page,Welcome''))"
    using output_gate_existence[OF m, where inp = "Some ''Home Page,Welcome''" and earlier = "[]",
            THEN conjunct2, THEN conjunct1]
    by (simp add: s2)
  moreover have "\<not> ok (lib_validateOutputs (Some (lib_sniffCsvShape ''Home Page,Welcome''))
             [''existence_csv''])"
    using output_gate_existence[OF m, where lsh = "lib_sniffCsvShape ''Home Page,Welcome''",
            THEN conjunct2, THEN conjunct2, THEN conjunct2, THEN conjunct2]
    by (simp add: s3)
  ultimately show ?thesis by simp
qed

theorem lib_gate_counterexample:
  "exists (lib_sniffCsvShape ''t1,/x,z\<newline>t2,/y,z'')
   \<and> inferredRoles (lib_sniffCsvShape ''t1,/x,z\<newline>t2,/y,z'') = [[''url'', ''title'', ''description'']]
   \<and> firstColUrlShare (lib_sniffCsvShape ''t1,/x,z\<newline>t2,/y,z'') = 0
   \<and> lib_validateOutputs (Some (lib_sniffCsvShape ''t1,/x,z\<newline>t2,/y,z'')) [''existence_csv'']
       = \<lparr>ok = False, errors = [msg_existence_urlish]\<rparr>"
proof -
  have s: "lib_sniffCsvShape ''t1,/x,z\<newline>t2,/y,z''
      = \<lparr>exists = True, cols = 3, firstColUrlShare = 0, firstRowIsUrl = False,
         inferredRoles = [[''url'', ''title'', ''description'']], delim = CHR '',''\<rparr>"
    by code_simp
  show ?thesis unfolding s by (simp add: lib_validateOutputs_def)
qed

section \<open>C4: the roles of a two-column input\<close>

text \<open>
  C4 (as amended). For an input classified with two columns by \<open>sniffCsvShape\<close> of
  \<open>telemetry.js\<close>: a first-column URL share above \<open>0.6\<close> with a second-column share
  below \<open>0.3\<close> gives \<open>[url, title]\<close> when the second column's average length is below
  \<open>120\<close> and \<open>[url, description]\<close> otherwise; both shares below \<open>0.3\<close> give
  \<open>[title, description]\<close>; a second-column share of at least \<open>0.3\<close>, or a first-column
  share from \<open>0.3\<close> up to but excluding \<open>0.6\<close>, gives \<open>[]\<close>. For \<open>sniffCsvShape\<close> of
  \<open>shape-sniff.js\<close> only the first column counts: a share of at least \<open>0.6\<close> gives
  \<open>[[url, title]]\<close> or \<open>[[url, description]]\<close> by the same length test, a smaller share
  gives \<open>[[title, description]]\<close>, and no two-column input is ambiguous.
\<close>

theorem two_column_roles:
  fixes raw :: string
  shows
    "(cols (sniffCsvShape (Some raw)) = 2 \<longrightarrow>
        (let rows = sample_rows raw; c1 = url_share 0 rows; c2 = url_share 1 rows;
             roles = inferredRoles (sniffCsvShape (Some raw))
         in (c1 > 0.6 \<and> c2 < 0.3 \<longrightarrow>
               roles = [''url'', if avg_cell_len 1 rows < 120 then ''title'' else ''description''])
          \<and> (c1 < 0.3 \<and> c2 < 0.3 \<longrightarrow> roles = [''title'', ''description''])
          \<and> (c2 \<ge> 0.3 \<or> (0.3 \<le> c1 \<and> c1 < 0.6) \<longrightarrow> roles = [])))
     \<and> (cols (lib_sniffCsvShape raw) = 2 \<longrightarrow>
        (let padded = padded_rows (detectDelimiter raw) raw;
             roles = inferredRoles (lib_sniffCsvShape raw)
         in (lib_share padded \<ge> 0.6 \<longrightarrow>
               roles = [[''url'', if avgLen (map (\<lambda>r. cell r 1) padded) < 120
                                  then ''title'' else ''description'']])
          \<and> (lib_share padded < 0.6 \<longrightarrow> roles = [[''title'', ''description'']])))"
proof -
  have tele: "cols (sniffCsvShape (Some raw)) = 2 \<Longrightarrow>
      inferredRoles (sniffCsvShape (Some raw)) = infer_roles 2 (sample_rows raw)"
    by (auto simp: sniffCsvShape_def no_shape_def Let_def split: if_splits)
  have lib: "cols (lib_sniffCsvShape raw) = 2 \<Longrightarrow>
      inferredRoles (lib_sniffCsvShape raw) = lib_roles 2 (padded_rows (detectDelimiter raw) raw)"
    by (simp add: lib_sniffCsvShape_def sniff_with_def Let_def)
  have t: "cols (sniffCsvShape (Some raw)) = 2 \<longrightarrow>
        (let rows = sample_rows raw; c1 = url_share 0 rows; c2 = url_share 1 rows;
             roles = inferredRoles (sniffCsvShape (Some raw))
         in (c1 > 0.6 \<and> c2 < 0.3 \<longrightarrow>
               roles = [''url'', if avg_cell_len 1 rows < 120 then ''title'' else ''description''])
          \<and> (c1 < 0.3 \<and> c2 < 0.3 \<longrightarrow> roles = [''title'', ''description''])
          \<and> (c2 \<ge> 0.3 \<or> (0.3 \<le> c1 \<and> c1 < 0.6) \<longrightarrow> roles = []))"
  proof
    assume c: "cols (sniffCsvShape (Some raw)) = 2"
    show "let rows = sample_rows raw; c1 = url_share 0 rows; c2 = url_share 1 rows;
             roles = inferredRoles (sniffCsvShape (Some raw))
         in (c1 > 0.6 \<and> c2 < 0.3 \<longrightarrow>
               roles = [''url'', if avg_cell_len 1 rows < 120 then ''title'' else ''description''])
          \<and> (c1 < 0.3 \<and> c2 < 0.3 \<longrightarrow> roles = [''title'', ''description''])
          \<and> (c2 \<ge> 0.3 \<or> (0.3 \<le> c1 \<and> c1 < 0.6) \<longrightarrow> roles = [])"
      unfolding tele[OF c] Let_def infer_roles_def by simp
  qed
  have l: "cols (lib_sniffCsvShape raw) = 2 \<longrightarrow>
        (let padded = padded_rows (detectDelimiter raw) raw;
             roles = inferredRoles (lib_sniffCsvShape raw)
         in (lib_share padded \<ge> 0.6 \<longrightarrow>
               roles = [[''url'', if avgLen (map (\<lambda>r. cell r 1) padded) < 120
                                  then ''title'' else ''description'']])
          \<and> (lib_share padded < 0.6 \<longrightarrow> roles = [[''title'', ''description'']]))"
  proof
    assume c: "cols (lib_sniffCsvShape raw) = 2"
    show "let padded = padded_rows (detectDelimiter raw) raw;
             roles = inferredRoles (lib_sniffCsvShape raw)
         in (lib_share padded \<ge> 0.6 \<longrightarrow>
               roles = [[''url'', if avgLen (map (\<lambda>r. cell r 1) padded) < 120
                                  then ''title'' else ''description'']])
          \<and> (lib_share padded < 0.6 \<longrightarrow> roles = [[''title'', ''description'']])"
      unfolding lib[OF c] Let_def lib_roles_def by simp
  qed
  show ?thesis by (rule conjI[OF t l])
qed

theorem two_column_roles_witness:
  "inferredRoles (sniffCsvShape (Some ''/a,x\<newline>/b,y\<newline>/c,z\<newline>/d,w\<newline>e,v'')) = [''url'', ''title'']
   \<and> inferredRoles (lib_sniffCsvShape ''Home Page,Welcome'') = [[''title'', ''description'']]"
proof -
  let ?raw = "''/a,x\<newline>/b,y\<newline>/c,z\<newline>/d,w\<newline>e,v''"
  have c: "cols (sniffCsvShape (Some ?raw)) = 2" by code_simp
  have s1: "url_share 0 (sample_rows ?raw) = 4 / 5" by code_simp
  have s2: "url_share (Suc 0) (sample_rows ?raw) = 0" by code_simp
  have a: "avg_cell_len (Suc 0) (sample_rows ?raw) = 1" by code_simp
  have t: "inferredRoles (sniffCsvShape (Some ?raw)) = [''url'', ''title'']"
    using two_column_roles[of ?raw, THEN conjunct1] c
    by (simp add: Let_def s1 s2 a)
  let ?r2 = "''Home Page,Welcome''"
  have c2: "cols (lib_sniffCsvShape ?r2) = 2" by code_simp
  have sh: "lib_share (padded_rows (detectDelimiter ?r2) ?r2) = 0" by code_simp
  have l: "inferredRoles (lib_sniffCsvShape ?r2) = [[''title'', ''description'']]"
    using two_column_roles[of ?r2, THEN conjunct2] c2
    by (simp add: Let_def sh)
  show ?thesis using t l by simp
qed

theorem two_column_counterexample:
  "cols (lib_sniffCsvShape ''http://a,http://b'') = 2
   \<and> padded_rows (detectDelimiter ''http://a,http://b'') ''http://a,http://b''
       = [[''http://a'', ''http://b'']]
   \<and> isUrlish ''http://a'' \<and> isUrlish ''http://b''
   \<and> inferredRoles (lib_sniffCsvShape ''http://a,http://b'') = [[''url'', ''title'']]"
proof -
  have "cols (lib_sniffCsvShape ''http://a,http://b'') = 2" by code_simp
  moreover have "padded_rows (detectDelimiter ''http://a,http://b'') ''http://a,http://b''
       = [[''http://a'', ''http://b'']]" by code_simp
  moreover have "isUrlish ''http://a''" "isUrlish ''http://b''" by code_simp+
  moreover have "inferredRoles (lib_sniffCsvShape ''http://a,http://b'') = [[''url'', ''title'']]"
    by code_simp
  ultimately show ?thesis by simp
qed

text \<open>
  At a first-column share of exactly \<open>0.6\<close> the classifier of \<open>telemetry.js\<close> tests
  \<open>col1Url > 0.6\<close> and falls through to the ambiguous case; its one-column branch and
  the gate test \<open>>= 0.6\<close>.
\<close>

lemma share_of_exactly_three_fifths:
  "cols (sniffCsvShape (Some ''/a,x\<newline>/b,y\<newline>/c,z\<newline>d,w\<newline>e,v'')) = 2
   \<and> url_share 0 (sample_rows ''/a,x\<newline>/b,y\<newline>/c,z\<newline>d,w\<newline>e,v'') = 0.6
   \<and> url_share 1 (sample_rows ''/a,x\<newline>/b,y\<newline>/c,z\<newline>d,w\<newline>e,v'') = 0
   \<and> inferredRoles (sniffCsvShape (Some ''/a,x\<newline>/b,y\<newline>/c,z\<newline>d,w\<newline>e,v'')) = []"
proof -
  let ?raw = "''/a,x\<newline>/b,y\<newline>/c,z\<newline>d,w\<newline>e,v''"
  have "cols (sniffCsvShape (Some ?raw)) = 2" by code_simp
  moreover have "url_share 0 (sample_rows ?raw) = 3 / 5" by code_simp
  moreover have "url_share 1 (sample_rows ?raw) = 0" by code_simp
  moreover have "inferredRoles (sniffCsvShape (Some ?raw)) = []" by code_simp
  ultimately show ?thesis by simp
qed

text \<open>
  The rule of \<open>shape-sniff.js\<close> does not depend on which delimiter was detected.
\<close>

lemma lib_two_columns_any_delimiter:
  assumes "cols (sniff_with d raw) = 2"
  shows "(lib_share (padded_rows d raw) \<ge> 0.6 \<longrightarrow>
            inferredRoles (sniff_with d raw)
              = [[''url'', if avgLen (map (\<lambda>r. cell r 1) (padded_rows d raw)) < 120
                           then ''title'' else ''description'']])
       \<and> (lib_share (padded_rows d raw) < 0.6 \<longrightarrow>
            inferredRoles (sniff_with d raw) = [[''title'', ''description'']])"
proof -
  have "inferredRoles (sniff_with d raw) = lib_roles 2 (padded_rows d raw)"
    using assms by (simp add: sniff_with_def Let_def)
  then show ?thesis
    unfolding lib_roles_def Let_def by simp
qed

section \<open>C5: the derived run mode\<close>

text \<open>
  \<open>run\<close> takes its rows from \<open>parseCsv\<close>, whose rows are objects with the three keys
  \<open>expectedUrl\<close>, \<open>expectedTitle\<close>, \<open>expectedDesc\<close>, and \<open>sniffInputShape\<close> counts the
  keys of the first row. So every input with a row counts as a three-column input, and
  the branches for one and two columns (\<open>NEW MODE B\<close>, \<open>C\<close>, \<open>D\<close>) are never taken.
\<close>

lemma parsed_rows_three_columns:
  "parsed_rows inp \<noteq> [] \<Longrightarrow> in_cols (sniffInputShape (parsed_rows inp)) = 3"
proof -
  have "rs \<noteq> [] \<Longrightarrow> in_cols (sniffInputShape (map row_object rs)) = 3" for rs
    by (cases rs) (simp_all add: sniffInputShape_def row_object_def Let_def)
  then show "parsed_rows inp \<noteq> [] \<Longrightarrow> in_cols (sniffInputShape (parsed_rows inp)) = 3"
    by (cases inp) (simp_all add: parsed_rows_def)
qed

lemma worker_mode_of_file:
  "worker_mode forced urlsFile in_scope None = ''no-input''"
  "worker_mode False False in_scope (Some raw)
     = (if parseCsv raw ''auto'' \<noteq> [] then ''explicit-urls'' else ''discovery'')"
  "forced \<or> urlsFile \<Longrightarrow> worker_mode forced urlsFile in_scope (Some raw) = ''discovery''"
proof -
  show "worker_mode forced urlsFile in_scope None = ''no-input''"
    by (simp add: worker_mode_def mode_of_input_def run_mode_def)
  have e: "explicit_sniff in_scope [] = False" by (simp add: explicit_sniff_def)
  have n: "in_mode (sniffInputShape []) = ''no-input''"
    by (simp add: sniffInputShape_def no_input_shape_def)
  have n0: "in_mode no_input_shape = ''no-input''" by (simp add: no_input_shape_def)
  have h: "rs \<noteq> [] \<Longrightarrow> in_mode (sniffInputShape rs) = ''has-input''" for rs
    by (simp add: sniffInputShape_def Let_def)
  show "worker_mode False False in_scope (Some raw)
     = (if parseCsv raw ''auto'' \<noteq> [] then ''explicit-urls'' else ''discovery'')"
  proof (cases "parseCsv raw ''auto'' = []")
    case True
    then show ?thesis
      by (simp add: worker_mode_def mode_of_input_def run_mode_def sitemapMode_def
            parsed_rows_def e n Let_def)
  next
    case False
    then have ne: "parsed_rows (Some raw) \<noteq> []" by (simp add: parsed_rows_def)
    have "sitemapMode (mode_of_input False False in_scope (Some raw))"
      using parsed_rows_three_columns[OF ne] h[OF ne] n0
      by (simp add: sitemapMode_def mode_of_input_def Let_def)
    then show ?thesis using False
      by (simp add: worker_mode_def run_mode_def mode_of_input_def)
  qed
  show "worker_mode forced urlsFile in_scope (Some raw) = ''discovery''" if "forced \<or> urlsFile"
    using that
    by (auto simp: worker_mode_def run_mode_def mode_of_input_def sitemapMode_def Let_def)
qed

text \<open>
  C5 (the code departs from the claim). A two-column file of titles and descriptions is
  reported as \<open>explicit-urls\<close>, where the claim says \<open>discovery\<close>; a one-column file of
  URLs has no parsed row and is reported as \<open>discovery\<close>, where the claim says
  \<open>explicit-urls\<close>; an empty file is reported as \<open>discovery\<close>, where the claim says
  \<open>no-input\<close>. Here the worker is neither forced into frontier mode nor given a file of
  URLs.
\<close>

theorem run_mode_failing_inputs:
  "parseCsv ''Home,Welcome'' ''auto''
     = [\<lparr>expectedUrl = [], expectedTitle = ''Home'', expectedDesc = ''Welcome''\<rparr>]
   \<and> worker_mode False False (\<lambda>h. True) (Some ''Home,Welcome'') = ''explicit-urls''
   \<and> parseCsv ''/a\<newline>/b'' ''auto'' = []
   \<and> worker_mode False False (\<lambda>h. True) (Some ''/a\<newline>/b'') = ''discovery''
   \<and> worker_mode False False (\<lambda>h. True) (Some []) = ''discovery''"
proof -
  have p1: "parseCsv ''Home,Welcome'' ''auto''
     = [\<lparr>expectedUrl = [], expectedTitle = ''Home'', expectedDesc = ''Welcome''\<rparr>]"
    by code_simp
  have p2: "parseCsv ''/a\<newline>/b'' ''auto'' = []" by code_simp
  have p3: "parseCsv [] ''auto'' = []" by code_simp
  show ?thesis using p1 p2 p3 by (simp add: worker_mode_of_file(2))
qed

text \<open>
  The guard \<open>!forceFrontier\<close> is deliberate: a worker of the frontier crawl reports
  \<open>discovery\<close> whatever the input file holds.
\<close>

lemma forced_frontier_mode:
  "worker_mode True False (\<lambda>h. True) (Some ''/a,T,D'') = ''discovery''"
  by (simp add: worker_mode_of_file(3))

section \<open>C6: the claim protocol of \<open>tryClaim\<close>\<close>



text \<open>
  When the lock directory cannot be created the call throws before it looks at anything.
\<close>

lemma tryClaim_mkdir_throws:
  "mkdir_fails env \<Longrightarrow> tryClaim env dir u = Inl MkdirError"
  by (simp add: tryClaim_def)

section \<open>C7: how a frontier worker leaves its work loop\<close>





section \<open>C8: three-tier title matching\<close>

text \<open>
  C8 (as amended). A title-based row is matched in three tiers, in order. Exact: the
  pages whose normalised title equals the expected title. Prefix: the pages whose
  normalised title starts with the string made of the first \<open>K\<close> space-separated words
  of the expected title (default \<open>K = 4\<close>); this is a test on characters, not on
  tokens. Fuzzy: of the pages whose Jaccard similarity to the expected title is at least
  \<open>T\<close> (default \<open>0.6\<close>), those of greatest similarity. The first tier with a hit
  decides; with no hit in any tier the result is \<open>none\<close>. The row is ambiguous exactly
  when the deciding tier has more than one candidate.
\<close>

theorem title_matching_tiers:
  fixes pages :: "page list" and e :: string and opts :: match_opts
    and k T r exact pre fz
  defines "k \<equiv> (case prefixWords opts of None \<Rightarrow> 4 | Some k \<Rightarrow> k)"
    and "T \<equiv> (case fuzzyThreshold opts of None \<Rightarrow> 0.6 | Some t \<Rightarrow> t)"
    and "r \<equiv> findByPrefixThenSimilarity pages e opts"
    and "exact \<equiv> filter (\<lambda>p. titleN p = e) pages"
    and "pre \<equiv> filter (\<lambda>p. startsWith (titleN p) (title_prefix k e)) pages"
    and "fz \<equiv> filter (\<lambda>p. T \<le> jaccard (titleN p) e) pages"
  shows "(exact \<noteq> [] \<longrightarrow> mtype r = Exact \<and> items r = exact)
       \<and> (exact = [] \<and> pre \<noteq> [] \<longrightarrow> mtype r = Prefix \<and> items r = pre)
       \<and> (exact = [] \<and> pre = [] \<and> fz \<noteq> [] \<longrightarrow>
            mtype r = Fuzzy
            \<and> items r = filter (\<lambda>p. \<forall>q \<in> set fz. jaccard (titleN q) e \<le> jaccard (titleN p) e) fz)
       \<and> (exact = [] \<and> pre = [] \<and> fz = [] \<longrightarrow> mtype r = MNone \<and> items r = [])
       \<and> (classify_title_row pages e opts = Ambiguous \<longleftrightarrow> 1 < length (items r))"
proof -
  define sc where "sc = scored pages e T"
  have r_unf: "r = (if exact \<noteq> [] then \<lparr>mtype = Exact, items = exact, score = None\<rparr>
                else if pre \<noteq> [] then \<lparr>mtype = Prefix, items = pre, score = None\<rparr>
                else if length sc = 0 then \<lparr>mtype = MNone, items = [], score = None\<rparr>
                else \<lparr>mtype = Fuzzy,
                      items = map (\<lambda>x. \<lparr>url = url (fst x), titleN = titleN (fst x)\<rparr>)
                                (filter (\<lambda>x. snd x = snd (hd sc)) sc),
                      score = Some (snd (hd sc))\<rparr>)"
  proof -
    have a: "length exact = 1 \<or> 1 < length exact" if "exact \<noteq> []"
      using that by (cases exact) auto
    have b: "length pre = 1 \<or> 1 < length pre" if "pre \<noteq> []"
      using that by (cases pre) auto
    show ?thesis
      unfolding r_def findByPrefixThenSimilarity_def Let_def sc_def
        k_def[symmetric] T_def[symmetric] exact_def[symmetric] pre_def[symmetric]
      using a b by auto
  qed
  have sc_eq: "sc = sort_key (\<lambda>x. - snd x) (map (\<lambda>p. (p, jaccard (titleN p) e)) fz)"
    unfolding sc_def scored_def fz_def by (simp only: scored_eq)
  have len_sc: "length sc = 0 \<longleftrightarrow> fz = []"
    by (simp add: sc_eq)
  have strip: "(\<lambda>x. \<lparr>url = url (fst x), titleN = titleN (fst x)\<rparr>) = (fst :: page \<times> real \<Rightarrow> page)"
    by (rule ext) simp
  have top: "map (\<lambda>x. \<lparr>url = url (fst x), titleN = titleN (fst x)\<rparr>)
               (filter (\<lambda>x. snd x = snd (hd sc)) sc)
             = filter (\<lambda>p. \<forall>q \<in> set fz. jaccard (titleN q) e \<le> jaccard (titleN p) e) fz"
    if "fz \<noteq> []"
    unfolding strip sc_def scored_def fz_def
    by (rule fuzzy_top) (use that in \<open>simp add: fz_def\<close>)
  have none_items: "mtype r = MNone \<Longrightarrow> items r = []"
    unfolding r_unf by (simp split: if_splits)
  have amb: "classify_title_row pages e opts = Ambiguous \<longleftrightarrow> 1 < length (items r)"
    using none_items
    by (auto simp: classify_title_row_def r_def Let_def split: option.splits)
  show ?thesis
    using amb top unfolding r_unf len_sc by simp
qed

theorem title_matching_tiers_witness:
  "items (findByPrefixThenSimilarity
      [\<lparr>url = ''u1'', titleN = ''a b c''\<rparr>, \<lparr>url = ''u2'', titleN = ''c b a''\<rparr>,
       \<lparr>url = ''u3'', titleN = ''x a b''\<rparr>] ''b a c''
      \<lparr>prefixWords = None, fuzzyThreshold = None\<rparr>)
     = [\<lparr>url = ''u1'', titleN = ''a b c''\<rparr>, \<lparr>url = ''u2'', titleN = ''c b a''\<rparr>]
   \<and> classify_title_row
      [\<lparr>url = ''u1'', titleN = ''a b c''\<rparr>, \<lparr>url = ''u2'', titleN = ''c b a''\<rparr>,
       \<lparr>url = ''u3'', titleN = ''x a b''\<rparr>] ''b a c''
      \<lparr>prefixWords = None, fuzzyThreshold = None\<rparr> = Ambiguous"
proof -
  let ?P = "[\<lparr>url = ''u1'', titleN = ''a b c''\<rparr>, \<lparr>url = ''u2'', titleN = ''c b a''\<rparr>,
       \<lparr>url = ''u3'', titleN = ''x a b''\<rparr>]"
  let ?o = "\<lparr>prefixWords = None, fuzzyThreshold = None\<rparr>"
  have e: "filter (\<lambda>p. titleN p = ''b a c'') ?P = []" by code_simp
  have p: "filter (\<lambda>p. startsWith (titleN p) (title_prefix 4 ''b a c'')) ?P = []"
    by code_simp
  have f: "filter (\<lambda>p. 6 / 10 \<le> jaccard (titleN p) ''b a c'') ?P
             = [\<lparr>url = ''u1'', titleN = ''a b c''\<rparr>, \<lparr>url = ''u2'', titleN = ''c b a''\<rparr>]"
    by code_simp
  have t: "filter (\<lambda>p. \<forall>q \<in> set [\<lparr>url = ''u1'', titleN = ''a b c''\<rparr>, \<lparr>url = ''u2'', titleN = ''c b a''\<rparr>].
                 jaccard (titleN q) ''b a c'' \<le> jaccard (titleN p) ''b a c'')
             [\<lparr>url = ''u1'', titleN = ''a b c''\<rparr>, \<lparr>url = ''u2'', titleN = ''c b a''\<rparr>]
           = [\<lparr>url = ''u1'', titleN = ''a b c''\<rparr>, \<lparr>url = ''u2'', titleN = ''c b a''\<rparr>]"
    by code_simp
  show ?thesis
    using title_matching_tiers[where pages = ?P and e = "''b a c''" and opts = ?o] unfolding match_opts.simps option.case e p f t
    by simp
qed


theorem prefix_tier_counterexample:
  "mtype (findByPrefixThenSimilarity [\<lparr>url = ''u1'', titleN = ''homepage''\<rparr>] ''home''
            \<lparr>prefixWords = None, fuzzyThreshold = None\<rparr>) = Prefix
   \<and> \<not> first_tokens_equal 4 ''homepage'' ''home''
   \<and> jaccard ''homepage'' ''home'' = 0
   \<and> classify_title_row [\<lparr>url = ''u1'', titleN = ''homepage''\<rparr>] ''home''
         \<lparr>prefixWords = None, fuzzyThreshold = None\<rparr>
       = Matched \<lparr>url = ''u1'', titleN = ''homepage''\<rparr>"
proof -
  have "mtype (findByPrefixThenSimilarity [\<lparr>url = ''u1'', titleN = ''homepage''\<rparr>] ''home''
            \<lparr>prefixWords = None, fuzzyThreshold = None\<rparr>) = Prefix"
    by code_simp
  moreover have "\<not> first_tokens_equal 4 ''homepage'' ''home''"
    by code_simp
  moreover have "jaccard ''homepage'' ''home'' = 0"
    by code_simp
  moreover have "classify_title_row [\<lparr>url = ''u1'', titleN = ''homepage''\<rparr>] ''home''
         \<lparr>prefixWords = None, fuzzyThreshold = None\<rparr>
       = Matched \<lparr>url = ''u1'', titleN = ''homepage''\<rparr>"
    by code_simp
  ultimately show ?thesis by simp
qed


text \<open>
  A single hit is reported through the page stored under its URL, which is the last page
  with that URL.
\<close>

lemma matched_page_is_looked_up:
  "classify_title_row [\<lparr>url = ''u1'', titleN = ''home''\<rparr>, \<lparr>url = ''u1'', titleN = ''other''\<rparr>]
      ''home'' \<lparr>prefixWords = None, fuzzyThreshold = None\<rparr>
     = Matched \<lparr>url = ''u1'', titleN = ''other''\<rparr>"
  by code_simp

section \<open>C9: applying \<open>normalizeUrl\<close> twice\<close>

text \<open>
  C9 (the code departs from the claim). \<open>normalizeUrl\<close> removes one trailing slash of the
  path, \<open>pathname.slice(0, -1)\<close>, where the other normalisers of the repository remove
  them all. A path that ends in two slashes therefore keeps one, and a second application
  removes it: for either value of \<open>keepPageParam\<close>, \<open>http://x.com/a//\<close> is normalised to
  \<open>http://x.com/a/\<close>, and that to \<open>http://x.com/a\<close>.
\<close>

theorem normalizeUrl_twice_differs:
  "normalizeUrl keepPageParam ''http://x.com/a//'' = Some ''http://x.com/a/''
   \<and> normalizeUrl keepPageParam ''http://x.com/a/'' = Some ''http://x.com/a''"
proof (cases keepPageParam)
  case True
  have "normalizeUrl True ''http://x.com/a//'' = Some ''http://x.com/a/''" by code_simp
  moreover have "normalizeUrl True ''http://x.com/a/'' = Some ''http://x.com/a''" by code_simp
  ultimately show ?thesis using True by simp
next
  case False
  have "normalizeUrl False ''http://x.com/a//'' = Some ''http://x.com/a/''" by code_simp
  moreover have "normalizeUrl False ''http://x.com/a/'' = Some ''http://x.com/a''" by code_simp
  ultimately show ?thesis using False by simp
qed

text \<open>
  On a URL whose path ends in at most one slash the second application changes nothing,
  also when tracking parameters and a fragment are dropped by the first.
\<close>

lemma normalizeUrl_stable_example:
  "normalizeUrl False ''HTTP://X.com/a/b/?utm_source=z&page=2&q=1#top'' = Some ''http://x.com/a/b?q=1''
   \<and> normalizeUrl False ''http://x.com/a/b?q=1'' = Some ''http://x.com/a/b?q=1''"
  by code_simp


section \<open>C10: the rows \<open>parseCsv\<close> keeps\<close>

text \<open>
  C10. \<open>parseCsv\<close> returns one row for each line (after the header, if one is skipped)
  that splits into at least two cells, in order: three or more cells give
  \<open>{expectedUrl, expectedTitle, expectedDesc}\<close> from the first three, exactly two give an
  empty \<open>expectedUrl\<close> with the title and the description. A line with fewer than two
  cells gives no row, so a file whose lines all yield a single cell parses to the
  empty list.
\<close>

theorem parseCsv_rows:
  "parseCsv raw h =
     map (\<lambda>l. let cells = splitCsvLine l
               in if 3 \<le> length cells
                  then \<lparr>expectedUrl = trim (cells ! 0), expectedTitle = trim (cells ! 1),
                        expectedDesc = trim (cells ! 2)\<rparr>
                  else \<lparr>expectedUrl = [], expectedTitle = trim (cells ! 0),
                        expectedDesc = trim (cells ! 1)\<rparr>)
       (filter (\<lambda>l. 2 \<le> length (splitCsvLine l))
          (drop (csv_start h (csv_lines raw)) (csv_lines raw)))
   \<and> ((\<forall>l \<in> set (csv_lines raw). length (splitCsvLine l) \<le> 1) \<longrightarrow> parseCsv raw h = [])"
proof -
  have ne: "(\<exists>y. row_of_cells cs = Some y) = (2 \<le> length cs)" for cs
    by (simp add: row_of_cells_def)
  have kept: "parseCsv raw h =
     map (\<lambda>l. the (row_of_cells (splitCsvLine l)))
       (filter (\<lambda>l. 2 \<le> length (splitCsvLine l))
          (drop (csv_start h (csv_lines raw)) (csv_lines raw)))"
    by (simp add: parseCsv_def Let_def map_filter_as_filter ne)
  have shape: "the (row_of_cells (splitCsvLine l)) =
      (let cells = splitCsvLine l
       in if 3 \<le> length cells
          then \<lparr>expectedUrl = trim (cells ! 0), expectedTitle = trim (cells ! 1),
                expectedDesc = trim (cells ! 2)\<rparr>
          else \<lparr>expectedUrl = [], expectedTitle = trim (cells ! 0),
                expectedDesc = trim (cells ! 1)\<rparr>)"
    if "2 \<le> length (splitCsvLine l)" for l
    using that by (simp add: row_of_cells_def Let_def)
  have single: "parseCsv raw h = []"
    if "\<forall>l \<in> set (csv_lines raw). length (splitCsvLine l) \<le> 1"
  proof -
    have "filter (\<lambda>l. 2 \<le> length (splitCsvLine l))
          (drop (csv_start h (csv_lines raw)) (csv_lines raw)) = []"
      using that by (auto simp: filter_empty_conv dest!: in_set_dropD)
    then show ?thesis by (simp add: kept)
  qed
  show ?thesis using kept shape single by (auto cong: map_cong)
qed

theorem parseCsv_rows_witness:
  "parseCsv ''alpha\<newline>beta'' ''auto'' = []
   \<and> parseCsv ''u,t,d\<newline>p,q\<newline>single'' ''false'' =
       [\<lparr>expectedUrl = ''u'', expectedTitle = ''t'', expectedDesc = ''d''\<rparr>,
        \<lparr>expectedUrl = [], expectedTitle = ''p'', expectedDesc = ''q''\<rparr>]"
proof -
  have l: "csv_lines ''alpha\<newline>beta'' = [''alpha'', ''beta'']" by code_simp
  have a: "splitCsvLine ''alpha'' = [''alpha'']" by code_simp
  have b: "splitCsvLine ''beta'' = [''beta'']" by code_simp
  have "\<forall>l \<in> set (csv_lines ''alpha\<newline>beta''). length (splitCsvLine l) \<le> 1"
    by (simp add: l a b)
  then have "parseCsv ''alpha\<newline>beta'' ''auto'' = []"
    using parseCsv_rows[of "''alpha\<newline>beta''" "''auto''"] by blast
  moreover have "parseCsv ''u,t,d\<newline>p,q\<newline>single'' ''false'' =
       [\<lparr>expectedUrl = ''u'', expectedTitle = ''t'', expectedDesc = ''d''\<rparr>,
        \<lparr>expectedUrl = [], expectedTitle = ''p'', expectedDesc = ''q''\<rparr>]"
    by code_simp
  ultimately show ?thesis by simp
qed

end
